theory Spec2Isabelle
  imports Main "HOL-Library.Sublist"
begin

section \<open>Strings\<close>

text \<open>
  A Python \<open>str\<close> is modelled as an Isabelle \<open>string\<close>, read as the UTF-8 encoding of
  the text: every delimiter the two programs search for is ASCII, and an ASCII byte never
  occurs inside a multi-byte sequence, so prefix tests, searches and splits at ASCII
  delimiters agree with Python's on code points.

  White space is what \<open>str.strip\<close>, \<open>str.isspace\<close> and the pattern \<open>\s\<close> take it
  to be: the code points U+0009..000D, U+001C..001F, U+0020, U+0085, U+00A0, U+1680,
  U+2000..200A, U+2028, U+2029, U+202F, U+205F and U+3000, here as their UTF-8 bytes.
\<close>

definition ws_codes :: "string list" where
  "ws_codes =
     [[CHR 0x09], [CHR 0x0A], [CHR 0x0B], [CHR 0x0C], [CHR 0x0D],
      [CHR 0x1C], [CHR 0x1D], [CHR 0x1E], [CHR 0x1F], [CHR 0x20],
      [CHR 0xC2, CHR 0x85], [CHR 0xC2, CHR 0xA0], [CHR 0xE1, CHR 0x9A, CHR 0x80],
      [CHR 0xE2, CHR 0x80, CHR 0x80], [CHR 0xE2, CHR 0x80, CHR 0x81],
      [CHR 0xE2, CHR 0x80, CHR 0x82], [CHR 0xE2, CHR 0x80, CHR 0x83],
      [CHR 0xE2, CHR 0x80, CHR 0x84], [CHR 0xE2, CHR 0x80, CHR 0x85],
      [CHR 0xE2, CHR 0x80, CHR 0x86], [CHR 0xE2, CHR 0x80, CHR 0x87],
      [CHR 0xE2, CHR 0x80, CHR 0x88], [CHR 0xE2, CHR 0x80, CHR 0x89],
      [CHR 0xE2, CHR 0x80, CHR 0x8A], [CHR 0xE2, CHR 0x80, CHR 0xA8],
      [CHR 0xE2, CHR 0x80, CHR 0xA9], [CHR 0xE2, CHR 0x80, CHR 0xAF],
      [CHR 0xE2, CHR 0x81, CHR 0x9F], [CHR 0xE3, CHR 0x80, CHR 0x80]]"

text \<open>The number of bytes of the white-space code point \<open>s\<close> starts with, 0 if none.\<close>

definition ws_len :: "string \<Rightarrow> nat" where
  "ws_len s = (case find (\<lambda>w. prefix w s) ws_codes of None \<Rightarrow> 0 | Some w \<Rightarrow> length w)"

text \<open>The same for the code point \<open>s\<close> ends with.\<close>

definition ws_len_end :: "string \<Rightarrow> nat" where
  "ws_len_end s = (case find (\<lambda>w. suffix w s) ws_codes of None \<Rightarrow> 0 | Some w \<Rightarrow> length w)"

text \<open>\<open>str.lstrip()\<close>, \<open>str.rstrip()\<close>, \<open>str.strip()\<close>; fuel is the length of the string.\<close>

fun lstrip_n :: "nat \<Rightarrow> string \<Rightarrow> string" where
  "lstrip_n 0 s = s"
| "lstrip_n (Suc n) s = (if ws_len s = 0 then s else lstrip_n n (drop (ws_len s) s))"

fun rstrip_n :: "nat \<Rightarrow> string \<Rightarrow> string" where
  "rstrip_n 0 s = s"
| "rstrip_n (Suc n) s =
     (if ws_len_end s = 0 then s else rstrip_n n (take (length s - ws_len_end s) s))"

definition lstrip :: "string \<Rightarrow> string" where
  "lstrip s = lstrip_n (length s) s"

definition rstrip :: "string \<Rightarrow> string" where
  "rstrip s = rstrip_n (length s) s"

definition strip :: "string \<Rightarrow> string" where
  "strip s = rstrip (lstrip s)"

text \<open>
  The first occurrence of a delimiter: \<open>split_on d s = Some (a, b)\<close> when \<open>s = a @ d @ b\<close>
  with \<open>d\<close> occurring nowhere earlier; \<open>None\<close> when \<open>d\<close> does not occur.
\<close>

fun split_on :: "string \<Rightarrow> string \<Rightarrow> (string \<times> string) option" where
  "split_on d [] = (if d = [] then Some ([], []) else None)"
| "split_on d (c # cs) =
     (if prefix d (c # cs) then Some ([], drop (length d) (c # cs))
      else (case split_on d cs of None \<Rightarrow> None | Some (a, b) \<Rightarrow> Some (c # a, b)))"

text \<open>\<open>d in s\<close> for strings.\<close>

definition contains :: "string \<Rightarrow> string \<Rightarrow> bool" where
  "contains d s = (split_on d s \<noteq> None)"

section \<open>Identifier normalization\<close>

text \<open>The class \<open>[0-9a-fA-F]\<close>, and \<open>str.lower\<close> on the ASCII strings it is applied to.\<close>

definition is_hex :: "char \<Rightarrow> bool" where
  "is_hex c = (c \<in> set ''0123456789abcdefABCDEF'')"

definition lower_char :: "char \<Rightarrow> char" where
  "lower_char c =
     (case map_of (zip ''ABCDEFGHIJKLMNOPQRSTUVWXYZ'' ''abcdefghijklmnopqrstuvwxyz'') c of
        None \<Rightarrow> c
      | Some d \<Rightarrow> d)"

definition lower :: "string \<Rightarrow> string" where
  "lower s = map lower_char s"

text \<open>\<open>re.search(r'([0-9a-fA-F]{32})', s)\<close>: the leftmost run of 32 hex digits.\<close>

definition is_hex32 :: "string \<Rightarrow> bool" where
  "is_hex32 h = (length h = 32 \<and> list_all is_hex h)"

fun search_hex32 :: "string \<Rightarrow> string option" where
  "search_hex32 [] = None"
| "search_hex32 (c # cs) =
     (if is_hex32 (take 32 (c # cs)) then Some (take 32 (c # cs)) else search_hex32 cs)"

text \<open>
  The hyphenated pattern
  \<open>[0-9a-fA-F]{8}-[0-9a-fA-F]{4}-[0-9a-fA-F]{4}-[0-9a-fA-F]{4}-[0-9a-fA-F]{12}\<close>
  and \<open>re.search\<close> for it.
\<close>

fun match_hex_groups :: "nat list \<Rightarrow> string \<Rightarrow> bool" where
  "match_hex_groups [] s = False"
| "match_hex_groups [n] s = (length s = n \<and> list_all is_hex s)"
| "match_hex_groups (n # k # ns) s =
     (length (take n s) = n \<and> list_all is_hex (take n s) \<and>
      (case drop n s of [] \<Rightarrow> False | c # r \<Rightarrow> c = CHR ''-'' \<and> match_hex_groups (k # ns) r))"

definition is_uuid :: "string \<Rightarrow> bool" where
  "is_uuid u = match_hex_groups [8, 4, 4, 4, 12] u"

fun search_uuid :: "string \<Rightarrow> string option" where
  "search_uuid [] = None"
| "search_uuid (c # cs) =
     (if is_uuid (take 36 (c # cs)) then Some (take 36 (c # cs)) else search_uuid cs)"

text \<open>\<open>f"{raw[0:8]}-{raw[8:12]}-{raw[12:16]}-{raw[16:20]}-{raw[20:32]}"\<close>.\<close>

definition hyphenate :: "string \<Rightarrow> string" where
  "hyphenate raw =
     take 8 raw @ ''-'' @ take 4 (drop 8 raw) @ ''-'' @ take 4 (drop 12 raw) @ ''-'' @
     take 4 (drop 16 raw) @ ''-'' @ take 12 (drop 20 raw)"

subsection \<open>Exporter: \<open>_normalize_page_id\<close>\<close>

text \<open>
  The pattern \<open>"pageId"\s*:\s*"(UUID)"\<close> matched at the start of \<open>s\<close>, and searched
  for in the page source.
\<close>

definition match_page_id :: "string \<Rightarrow> string option" where
  "match_page_id s =
     (if prefix ''\"pageId\"'' s then
        (case lstrip (drop 8 s) of
           [] \<Rightarrow> None
         | c # r1 \<Rightarrow>
             if c = CHR '':'' then
               (case lstrip r1 of
                  [] \<Rightarrow> None
                | q # r2 \<Rightarrow>
                    if q = CHR 0x22 \<and> is_uuid (take 36 r2) \<and> prefix ''\"'' (drop 36 r2)
                    then Some (take 36 r2) else None)
             else None)
      else None)"

fun search_page_id :: "string \<Rightarrow> string option" where
  "search_page_id [] = None"
| "search_page_id (c # cs) =
     (case match_page_id (c # cs) of Some u \<Rightarrow> Some u | None \<Rightarrow> search_page_id cs)"

datatype value_error = ValueError

datatype request_exception = RequestException

text \<open>The tail of the function, from \<open>if not m and not m_uuid: raise ValueError\<close> on.\<close>

definition normalized_result :: "string option \<Rightarrow> string option \<Rightarrow> value_error + string" where
  "normalized_result m m_uuid =
     (case m_uuid of
        Some u \<Rightarrow> Inr (lower u)
      | None \<Rightarrow> (case m of None \<Rightarrow> Inl ValueError | Some raw \<Rightarrow> Inr (hyphenate (lower raw))))"

text \<open>
  \<open>http_get\<close> stands for \<open>self.session.get\<close> followed by \<open>raise_for_status\<close>: the text of
  the page, or a \<open>RequestException\<close>.
\<close>

definition normalize_page_id ::
  "(string \<Rightarrow> request_exception + string) \<Rightarrow> string \<Rightarrow> value_error + string" where
  "normalize_page_id http_get url_or_id =
     (let m = search_hex32 url_or_id;
          m_uuid = search_uuid url_or_id
      in if m = None \<and> m_uuid = None \<and>
            (prefix ''http://'' url_or_id \<or> prefix ''https://'' url_or_id)
         then
           (case http_get url_or_id of
              Inl e \<Rightarrow> Inl ValueError
            | Inr html \<Rightarrow>
                (let m_page_id = search_page_id html;
                     m_uuid' = (if m_page_id \<noteq> None then m_page_id else search_uuid html);
                     m' = (if m_uuid' = None then search_hex32 html else m)
                 in normalized_result m' m_uuid'))
         else normalized_result m m_uuid)"

subsection \<open>Importer: \<open>_normalize_id\<close>\<close>

text \<open>\<open>s.split(c)[-1]\<close> and \<open>s.split(c)[0]\<close> for a one-character separator.\<close>

definition last_part :: "char \<Rightarrow> string \<Rightarrow> string" where
  "last_part c s = rev (takeWhile (\<lambda>x. x \<noteq> c) (rev s))"

definition first_part :: "char \<Rightarrow> string \<Rightarrow> string" where
  "first_part c s = takeWhile (\<lambda>x. x \<noteq> c) s"

text \<open>
  \<open>re.search(r'([0-9a-fA-F]{32})$', s)\<close>: the leftmost run of 32 hex digits that ends the
  string; without the MULTILINE flag \<open>$\<close> also matches just before a final newline.
\<close>

fun search_hex32_end :: "string \<Rightarrow> string option" where
  "search_hex32_end [] = None"
| "search_hex32_end (c # cs) =
     (if is_hex32 (take 32 (c # cs)) \<and> (drop 32 (c # cs) = [] \<or> drop 32 (c # cs) = [CHR 0x0A])
      then Some (take 32 (c # cs)) else search_hex32_end cs)"

text \<open>
  The first two steps of \<open>_normalize_id\<close>: keep what follows the last \<open>/\<close>, then what
  precedes the first \<open>?\<close>.
\<close>

definition url_tail :: "string \<Rightarrow> string" where
  "url_tail page_id0 =
     (let page_id1 = (if CHR ''/'' \<in> set page_id0 then last_part CHR ''/'' page_id0 else page_id0)
      in if CHR ''?'' \<in> set page_id1 then first_part CHR ''?'' page_id1 else page_id1)"

definition normalize_id :: "string \<Rightarrow> string" where
  "normalize_id page_id0 =
     (let page_id = url_tail page_id0
      in case search_hex32_end page_id of
           Some raw \<Rightarrow> hyphenate (lower raw)
         | None \<Rightarrow>
             (case search_uuid page_id of
                Some u \<Rightarrow> lower u
              | None \<Rightarrow> page_id))"

section \<open>Importer: page creation in chunks of 100 blocks\<close>

text \<open>
  \<open>NotionImporter.create_page\<close> (notion_import.py). The remote client is the only effect:
  the model returns the list of API calls issued, in order, and the outcome (the new page
  id, or the exception of the call that raised, which the source lets escape).
  The client is a parameter: \<open>pages_create\<close> answers the create call with a page id or an
  error, \<open>blocks_append k\<close> answers the \<open>k\<close>-th append call.
\<close>

datatype api_error = APIResponseError










section \<open>Exporter: paginated record-map assembly\<close>

text \<open>
  \<open>NotionPublicExporter.fetch_record_map\<close> (notion_public_export.py). The remote API is a
  parameter: it answers a call (endpoint, page id, cursor, chunk number) with a
  \<open>RuntimeError\<close> (what \<open>_api_post\<close> raises on a non-200 status) or with the response.
  The chunk number grows at each iteration, so every call of one run has its own answer.
  A cursor is the dictionary under \<open>"cursor"\<close>: its \<open>stack\<close> (a missing key reads as the
  empty stack: both stop the loop) and its other keys. The block mapping of a response is
  \<open>recordMap.block\<close>, empty when missing.
  The loop is \<open>while True\<close>: it is a partial function, \<open>None\<close> when it never leaves.
\<close>

datatype runtime_error = RuntimeError

record ('s, 'o) cursor =
  stack :: "'s list"
  other_keys :: "string \<rightharpoonup> 'o"

record ('v, 's, 'o) chunk_data =
  record_map_block :: "string \<rightharpoonup> 'v"
  data_cursor :: "('s, 'o) cursor"

datatype endpoint = LoadPageChunk | LoadCachedPageChunk

type_synonym ('v, 's, 'o) api =
  "endpoint \<Rightarrow> string \<Rightarrow> ('s, 'o) cursor \<Rightarrow> nat \<Rightarrow> runtime_error + ('v, 's, 'o) chunk_data"

text \<open>\<open>try: loadPageChunk except RuntimeError: loadCachedPageChunk\<close> (whose error escapes).\<close>

definition load_chunk ::
  "('v, 's, 'o) api \<Rightarrow> string \<Rightarrow> ('s, 'o) cursor \<Rightarrow> nat \<Rightarrow> runtime_error + ('v, 's, 'o) chunk_data" where
  "load_chunk api page_id cur chunk_number =
     (case api LoadPageChunk page_id cur chunk_number of
        Inr d \<Rightarrow> Inr d
      | Inl e \<Rightarrow> api LoadCachedPageChunk page_id cur chunk_number)"

partial_function (option) fetch_loop ::
  "('v, 's, 'o) api \<Rightarrow> string \<Rightarrow> ('s, 'o) cursor \<Rightarrow> nat \<Rightarrow> (string \<rightharpoonup> 'v)
     \<Rightarrow> (runtime_error + (string \<rightharpoonup> 'v)) option" where
  "fetch_loop api page_id cur chunk_number merged_blocks =
     (case load_chunk api page_id cur chunk_number of
        Inl e \<Rightarrow> Some (Inl e)
      | Inr d \<Rightarrow>
          if record_map_block d = Map.empty then Some (Inr merged_blocks)
          else if data_cursor d = cur \<or> stack (data_cursor d) = []
            then Some (Inr (merged_blocks ++ record_map_block d))
            else fetch_loop api page_id (data_cursor d) (chunk_number + 1)
                   (merged_blocks ++ record_map_block d))"

definition initial_cursor :: "('s, 'o) cursor" where
  "initial_cursor = \<lparr> stack = [], other_keys = Map.empty \<rparr>"

definition fetch_record_map ::
  "('v, 's, 'o) api \<Rightarrow> string \<Rightarrow> (runtime_error + (string \<rightharpoonup> 'v)) option" where
  "fetch_record_map api page_id = fetch_loop api page_id initial_cursor 0 Map.empty"

text \<open>
  The chunk mappings one run merges, in order: the same loop, collecting each non-empty
  \<open>blocks\<close> it passes to \<open>merged_blocks.update\<close>.
\<close>

partial_function (option) merged_chunks ::
  "('v, 's, 'o) api \<Rightarrow> string \<Rightarrow> ('s, 'o) cursor \<Rightarrow> nat \<Rightarrow> (string \<rightharpoonup> 'v) list
     \<Rightarrow> (string \<rightharpoonup> 'v) list option" where
  "merged_chunks api page_id cur chunk_number chunks =
     (case load_chunk api page_id cur chunk_number of
        Inl e \<Rightarrow> Some chunks
      | Inr d \<Rightarrow>
          if record_map_block d = Map.empty then Some chunks
          else if data_cursor d = cur \<or> stack (data_cursor d) = []
            then Some (chunks @ [record_map_block d])
            else merged_chunks api page_id (data_cursor d) (chunk_number + 1)
                   (chunks @ [record_map_block d]))"

text \<open>
  A run of two chunks that both hold the identifier \<open>a\<close>: the first call answers
  \<open>a \<mapsto> 1\<close> with a cursor that goes on, the second \<open>a \<mapsto> 2, b \<mapsto> 3\<close> with an empty stack.
\<close>

definition two_chunk_api :: "(nat, nat, nat) api" where
  "two_chunk_api ep page_id cur chunk_number =
     (if chunk_number = 0
      then Inr \<lparr> record_map_block = [''a'' \<mapsto> 1],
                 data_cursor = \<lparr> stack = [7], other_keys = Map.empty \<rparr> \<rparr>
      else Inr \<lparr> record_map_block = [''a'' \<mapsto> 2, ''b'' \<mapsto> 3],
                 data_cursor = \<lparr> stack = [], other_keys = Map.empty \<rparr> \<rparr>)"

section \<open>Importer: the recursive rich-text encoder\<close>

text \<open>
  \<open>NotionImporter._parse_rich_text_recursive\<close> (notion_import.py). The annotation
  dictionary only ever receives the keys \<open>bold\<close>, \<open>italic\<close>, \<open>strikethrough\<close>,
  \<open>underline\<close>, \<open>code\<close> (set to \<open>True\<close>) and \<open>color\<close>: it is a record, a key that is
  absent being \<open>False\<close> or \<open>None\<close>. A segment is its text content, the annotation
  dictionary it was created under (the empty one when the key is left out) and its link.
\<close>

record annotations =
  bold :: bool
  italic :: bool
  strikethrough :: bool
  underline :: bool
  code :: bool
  color :: "string option"

definition no_annotations :: annotations where
  "no_annotations = \<lparr> bold = False, italic = False, strikethrough = False,
                       underline = False, code = False, color = None \<rparr>"

record segment =
  content :: string
  seg_annotations :: annotations
  link :: "string option"

definition CSS_TO_NOTION_COLOR :: "(string \<times> string) list" where
  "CSS_TO_NOTION_COLOR =
     [(''#787774'', ''gray''), (''#9F6B53'', ''brown''), (''#D9730D'', ''orange''),
      (''#CB912F'', ''yellow''), (''#448361'', ''green''), (''#337EA9'', ''blue''),
      (''#9065B0'', ''purple''), (''#C14C8A'', ''pink''), (''#D44C47'', ''red''),
      (''#F1F1EF'', ''gray_background''), (''#F4EEEE'', ''brown_background''),
      (''#FBECDD'', ''orange_background''), (''#FBF3DB'', ''yellow_background''),
      (''#EDF3EC'', ''green_background''), (''#E7F3F8'', ''blue_background''),
      (''#F6F3F9'', ''purple_background''), (''#FAF1F5'', ''pink_background''),
      (''#FDEBEC'', ''red_background'')]"

text \<open>\<open>self.CSS_TO_NOTION_COLOR.get(color_css, "default")\<close>.\<close>

definition notion_color :: "string \<Rightarrow> string" where
  "notion_color color_css =
     (case map_of CSS_TO_NOTION_COLOR color_css of None \<Rightarrow> ''default'' | Some c \<Rightarrow> c)"

text \<open>
  The patterns, each matched at the start of the text with \<open>re.DOTALL\<close>.
  \<open>OPEN(.+?)CLOSE(.*)\<close>: after \<open>OPEN\<close>, the shortest non-empty text that \<open>CLOSE\<close>
  follows, and the remainder. \<open>OPEN(.*?)CLOSE(.*)\<close> allows the empty inner text.
\<close>

definition delimited_ne :: "string \<Rightarrow> string \<Rightarrow> string \<Rightarrow> (string \<times> string) option" where
  "delimited_ne opn cls s =
     (if prefix opn s then
        (case drop (length opn) s of
           [] \<Rightarrow> None
         | c # r \<Rightarrow> (case split_on cls r of None \<Rightarrow> None | Some (a, b) \<Rightarrow> Some (c # a, b)))
      else None)"

definition delimited :: "string \<Rightarrow> string \<Rightarrow> string \<Rightarrow> (string \<times> string) option" where
  "delimited opn cls s = (if prefix opn s then split_on cls (drop (length opn) s) else None)"

text \<open>
  \<open><span style="color:\s*([^"]+)">(.*?)</span>(.*)\<close> and its \<open>background-color\<close> twin:
  the value runs up to the next double quote, is not empty, and \<open>">\<close> follows it; group 1
  is the value less leading white space, and the code strips it.
\<close>

definition span_match :: "string \<Rightarrow> string \<Rightarrow> (string \<times> string \<times> string) option" where
  "span_match opn s =
     (if prefix opn s then
        (let r = drop (length opn) s;
             v = takeWhile (\<lambda>c. c \<noteq> CHR 0x22) r;
             r1 = dropWhile (\<lambda>c. c \<noteq> CHR 0x22) r
         in if v \<noteq> [] \<and> prefix ''\">'' r1 then
              (case split_on ''</span>'' (drop 2 r1) of
                 None \<Rightarrow> None
               | Some (inner, remaining) \<Rightarrow> Some (strip v, inner, remaining))
            else None)
      else None)"

definition color_match :: "string \<Rightarrow> (string \<times> string \<times> string) option" where
  "color_match s = span_match ''<span style=\"color:'' s"

definition bg_match :: "string \<Rightarrow> (string \<times> string \<times> string) option" where
  "bg_match s = span_match ''<span style=\"background-color:'' s"

definition underline_match :: "string \<Rightarrow> (string \<times> string) option" where
  "underline_match s = delimited ''<u>'' ''</u>'' s"

definition bold_italic_match :: "string \<Rightarrow> (string \<times> string) option" where
  "bold_italic_match s = delimited_ne ''***'' ''***'' s"

definition bold_match :: "string \<Rightarrow> (string \<times> string) option" where
  "bold_match s = delimited_ne ''**'' ''**'' s"

definition italic_match :: "string \<Rightarrow> (string \<times> string) option" where
  "italic_match s = delimited_ne ''*'' ''*'' s"

definition strike_match :: "string \<Rightarrow> (string \<times> string) option" where
  "strike_match s = delimited_ne ''~~'' ''~~'' s"

text \<open>The inline code pattern: a backquote, a non-empty run without backquote, a backquote.\<close>

definition code_match :: "string \<Rightarrow> (string \<times> string) option" where
  "code_match s =
     (case s of
        [] \<Rightarrow> None
      | c # r \<Rightarrow>
          if c = CHR 0x60 then
            (let v = takeWhile (\<lambda>x. x \<noteq> CHR 0x60) r;
                 r1 = dropWhile (\<lambda>x. x \<noteq> CHR 0x60) r
             in if v \<noteq> [] \<and> r1 \<noteq> [] then Some (v, tl r1) else None)
          else None)"

text \<open>\<open>\[([^\]]+)\]\(([^)]+)\)(.*)\<close>.\<close>

definition link_match :: "string \<Rightarrow> (string \<times> string \<times> string) option" where
  "link_match s =
     (case s of
        [] \<Rightarrow> None
      | c # r \<Rightarrow>
          if c = CHR ''['' then
            (let t = takeWhile (\<lambda>x. x \<noteq> CHR '']'') r;
                 r1 = dropWhile (\<lambda>x. x \<noteq> CHR '']'') r
             in if t \<noteq> [] \<and> prefix '']('' r1 then
                  (let r2 = drop 2 r1;
                       u = takeWhile (\<lambda>x. x \<noteq> CHR '')'') r2;
                       r3 = dropWhile (\<lambda>x. x \<noteq> CHR '')'') r2
                   in if u \<noteq> [] \<and> r3 \<noteq> [] then Some (t, u, tl r3) else None)
                else None)
          else None)"

text \<open>\<open>special_chars = ['<', '*', '~', '`', '[']\<close> and the position of the first of them.\<close>

definition is_special :: "char \<Rightarrow> bool" where
  "is_special c = (c \<in> {CHR ''<'', CHR ''*'', CHR ''~'', CHR 0x60, CHR ''[''})"

definition next_special :: "string \<Rightarrow> nat" where
  "next_special s = length (takeWhile (\<lambda>c. \<not> is_special c) s)"

text \<open>
  The branch one call takes on a non-empty text, with what it binds: a formatting pattern
  (inner text, the annotations for it, remainder), the link pattern (link text, target,
  remainder), or a literal run (the run and what follows it). The patterns are tried in
  the order of the source.
\<close>

datatype branch =
    Format string annotations string
  | Link string string string
  | Plain string string

definition dispatch :: "string \<Rightarrow> annotations \<Rightarrow> branch" where
  "dispatch s ann =
     (case color_match s of
        Some (color_css, inner, remaining) \<Rightarrow>
          Format inner (ann\<lparr>color := Some (notion_color color_css)\<rparr>) remaining
      | None \<Rightarrow>
     (case bg_match s of
        Some (color_css, inner, remaining) \<Rightarrow>
          Format inner (ann\<lparr>color := Some (notion_color color_css)\<rparr>) remaining
      | None \<Rightarrow>
     (case underline_match s of
        Some (inner, remaining) \<Rightarrow> Format inner (ann\<lparr>underline := True\<rparr>) remaining
      | None \<Rightarrow>
     (case bold_italic_match s of
        Some (inner, remaining) \<Rightarrow> Format inner (ann\<lparr>bold := True, italic := True\<rparr>) remaining
      | None \<Rightarrow>
     (case bold_match s of
        Some (inner, remaining) \<Rightarrow> Format inner (ann\<lparr>bold := True\<rparr>) remaining
      | None \<Rightarrow>
     (case italic_match s of
        Some (inner, remaining) \<Rightarrow> Format inner (ann\<lparr>italic := True\<rparr>) remaining
      | None \<Rightarrow>
     (case strike_match s of
        Some (inner, remaining) \<Rightarrow> Format inner (ann\<lparr>strikethrough := True\<rparr>) remaining
      | None \<Rightarrow>
     (case code_match s of
        Some (inner, remaining) \<Rightarrow> Format inner (ann\<lparr>code := True\<rparr>) remaining
      | None \<Rightarrow>
     (case link_match s of
        Some (link_text, link_url, remaining) \<Rightarrow> Link link_text link_url remaining
      | None \<Rightarrow>
          (if next_special s > 0 then Plain (take (next_special s) s) (drop (next_special s) s)
           else Plain (take 1 s) (drop 1 s)))))))))))"

definition plain_segment :: "string \<Rightarrow> annotations \<Rightarrow> segment" where
  "plain_segment plain_text ann = \<lparr> content = plain_text, seg_annotations = ann, link = None \<rparr>"

text \<open>\<open>if link_url.startswith("http"): seg["text"]["link"] = {"url": link_url}\<close>.\<close>

definition add_link :: "string \<Rightarrow> segment \<Rightarrow> segment" where
  "add_link link_url seg = (if prefix ''http'' link_url then seg\<lparr>link := Some link_url\<rparr> else seg)"

text \<open>
  The encoder. The source appends to the list \<open>segments\<close> it is handed; the model returns
  the segments one call appends, in order. In the link branch the segments of the link
  text are collected apart and receive the link before they are appended.

  The scan is by recursion: a call makes a nested call for the inner text of a pattern and
  one for what follows it, so the interpreter's stack bounds how many segments a text may
  have. \<open>depth\<close> is the number of nested calls of the function the stack still has room for
  when the call is made (Python's recursion limit, 1000 unless it is changed, less the
  frames in use; the frames of the calls into \<open>re\<close> are left out, they lower the number by
  a constant). A call for which no room is left raises \<open>RecursionError\<close>, which nothing in
  the function catches: the calls made so far are abandoned and the call raises.
\<close>

datatype recursion_error = RecursionError

text \<open>Two calls in sequence: the segments of both, or the first \<open>RecursionError\<close>.\<close>

definition and_then ::
  "recursion_error + segment list \<Rightarrow> recursion_error + segment list
     \<Rightarrow> recursion_error + segment list" where
  "and_then first second =
     (case first of
        Inl e \<Rightarrow> Inl e
      | Inr a \<Rightarrow> (case second of Inl e \<Rightarrow> Inl e | Inr b \<Rightarrow> Inr (a @ b)))"

fun parse_rich_text_recursive ::
  "nat \<Rightarrow> string \<Rightarrow> annotations \<Rightarrow> recursion_error + segment list" where
  "parse_rich_text_recursive 0 s ann = Inl RecursionError"
| "parse_rich_text_recursive (Suc depth) s ann =
     (if s = [] then Inr []
      else
        (case dispatch s ann of
           Format inner new_annotations remaining \<Rightarrow>
             and_then (parse_rich_text_recursive depth inner new_annotations)
                      (parse_rich_text_recursive depth remaining ann)
         | Link link_text link_url remaining \<Rightarrow>
             and_then (map_sum id (map (add_link link_url))
                         (parse_rich_text_recursive depth link_text ann))
                      (parse_rich_text_recursive depth remaining ann)
         | Plain plain_text remaining \<Rightarrow>
             and_then (Inr [plain_segment plain_text ann])
                      (parse_rich_text_recursive depth remaining ann)))"

declare parse_rich_text_recursive.simps [simp del]

section \<open>Exporter: rich text to Markdown\<close>

text \<open>
  \<open>NotionPublicExporter._rich_text_to_markdown\<close> (notion_public_export.py). A rich text
  is a list of parts \<open>[text, annotations]\<close>; a part that is not a non-empty list is
  skipped by the source and left out here. An annotation is a list headed by its kind:
  \<open>b\<close>, \<open>i\<close>, \<open>s\<close>, \<open>c\<close>, \<open>_\<close>, \<open>a\<close> with a target, \<open>p\<close> with a page id, \<open>lm\<close> with
  the \<open>href\<close> and \<open>title\<close> of its dictionary, \<open>h\<close> with a color; any other annotation
  (unknown kind, missing argument) changes nothing and is \<open>Ann_other\<close>.
  The title of a mentioned page comes from the title cache or from \<open>_get_page_title\<close>,
  which fetches it: the parameter \<open>titles\<close> gives it, \<open>None\<close> when there is none.
\<close>

datatype ann =
    Ann_b
  | Ann_i
  | Ann_s
  | Ann_c
  | Ann_underline
  | Ann_a string
  | Ann_p string
  | Ann_lm "string option" "string option"
  | Ann_h string
  | Ann_other

type_synonym rich_text = "(string \<times> ann list) list"

definition COLOR_MAP :: "(string \<times> string) list" where
  "COLOR_MAP =
     [(''gray'', ''#787774''), (''brown'', ''#9F6B53''), (''orange'', ''#D9730D''),
      (''yellow'', ''#CB912F''), (''green'', ''#448361''), (''blue'', ''#337EA9''),
      (''purple'', ''#9065B0''), (''pink'', ''#C14C8A''), (''red'', ''#D44C47''),
      (''gray_background'', ''#F1F1EF''), (''brown_background'', ''#F4EEEE''),
      (''orange_background'', ''#FBECDD''), (''yellow_background'', ''#FBF3DB''),
      (''green_background'', ''#EDF3EC''), (''blue_background'', ''#E7F3F8''),
      (''purple_background'', ''#F6F3F9''), (''pink_background'', ''#FAF1F5''),
      (''red_background'', ''#FDEBEC'')]"

text \<open>The variables of the loop over one part's annotations.\<close>

record span_state =
  span_text :: string
  is_bold :: bool
  is_italic :: bool
  is_strikethrough :: bool
  is_code :: bool
  is_underline :: bool
  link_url :: "string option"
  highlight_color :: "string option"

definition initial_state :: "string \<Rightarrow> span_state" where
  "initial_state t =
     \<lparr> span_text = t, is_bold = False, is_italic = False, is_strikethrough = False,
       is_code = False, is_underline = False, link_url = None, highlight_color = None \<rparr>"

fun apply_ann :: "(string \<Rightarrow> string option) \<Rightarrow> span_state \<Rightarrow> ann \<Rightarrow> span_state" where
  "apply_ann titles st Ann_b = st\<lparr>is_bold := True\<rparr>"
| "apply_ann titles st Ann_i = st\<lparr>is_italic := True\<rparr>"
| "apply_ann titles st Ann_s = st\<lparr>is_strikethrough := True\<rparr>"
| "apply_ann titles st Ann_c = st\<lparr>is_code := True\<rparr>"
| "apply_ann titles st Ann_underline = st\<lparr>is_underline := True\<rparr>"
| "apply_ann titles st (Ann_a url) = st\<lparr>link_url := Some url\<rparr>"
| "apply_ann titles st (Ann_p page_mention_id) =
     (let st' = st\<lparr>link_url := Some (''/'' @ filter (\<lambda>c. c \<noteq> CHR ''-'') page_mention_id)\<rparr>
      in case titles page_mention_id of
           None \<Rightarrow> st'
         | Some title \<Rightarrow> st'\<lparr>span_text := title\<rparr>)"
| "apply_ann titles st (Ann_lm href link_title) =
     (let st' = st\<lparr>link_url := href\<rparr>
      in case link_title of
           None \<Rightarrow> st'
         | Some title \<Rightarrow> if title \<noteq> [] then st'\<lparr>span_text := title\<rparr> else st')"
| "apply_ann titles st (Ann_h c) =
     (if c \<noteq> [] \<and> c \<noteq> ''default'' then st\<lparr>highlight_color := Some c\<rparr> else st)"
| "apply_ann titles st Ann_other = st"

text \<open>
  A single leading and a single trailing space are taken off the text before the markers
  are applied and put back outside them.
\<close>

definition leading_space :: "string \<Rightarrow> string" where
  "leading_space t = (if t \<noteq> [] \<and> hd t = CHR '' '' then '' '' else [])"

definition strip_leading :: "string \<Rightarrow> string" where
  "strip_leading t = (if t \<noteq> [] \<and> hd t = CHR '' '' then tl t else t)"

definition trailing_space :: "string \<Rightarrow> string" where
  "trailing_space t = (if t \<noteq> [] \<and> last t = CHR '' '' then '' '' else [])"

definition strip_trailing :: "string \<Rightarrow> string" where
  "strip_trailing t = (if t \<noteq> [] \<and> last t = CHR '' '' then butlast t else t)"

text \<open>The markers, innermost first; applied only when text is left.\<close>

definition apply_formatting :: "span_state \<Rightarrow> string \<Rightarrow> string" where
  "apply_formatting st t0 =
     (if t0 = [] then t0
      else
        let t1 = (if is_code st then [CHR 0x60] @ t0 @ [CHR 0x60] else t0);
            t2 = (if is_strikethrough st then ''~~'' @ t1 @ ''~~'' else t1);
            t3 = (if is_underline st then ''<u>'' @ t2 @ ''</u>'' else t2);
            t4 = (if is_bold st \<and> is_italic st then ''***'' @ t3 @ ''***''
                  else if is_bold st then ''**'' @ t3 @ ''**''
                  else if is_italic st then ''*'' @ t3 @ ''*''
                  else t3)
        in (case link_url st of
              None \<Rightarrow> t4
            | Some url \<Rightarrow> if url \<noteq> [] then ''['' @ t4 @ '']('' @ url @ '')'' else t4))"

text \<open>The color wrap, outermost; an unknown color leaves the text as it is.\<close>

definition apply_color :: "bool \<Rightarrow> span_state \<Rightarrow> string \<Rightarrow> string" where
  "apply_color use_html_colors st t =
     (case highlight_color st of
        None \<Rightarrow> t
      | Some c \<Rightarrow>
          if use_html_colors then
            (case map_of COLOR_MAP c of
               None \<Rightarrow> t
             | Some css_color \<Rightarrow>
                 if css_color = [] then t
                 else if contains ''_background'' c
                   then ''<span style=\"background-color: '' @ css_color @ ''\">'' @ t @ ''</span>''
                   else ''<span style=\"color: '' @ css_color @ ''\">'' @ t @ ''</span>'')
          else t)"

definition part_to_markdown ::
  "(string \<Rightarrow> string option) \<Rightarrow> bool \<Rightarrow> string \<times> ann list \<Rightarrow> string" where
  "part_to_markdown titles use_html_colors part =
     (let st = foldl (apply_ann titles) (initial_state (fst part)) (snd part);
          t = span_text st;
          t' = strip_trailing (strip_leading t);
          formatted = leading_space t @ apply_formatting st t' @ trailing_space (strip_leading t)
      in apply_color use_html_colors st formatted)"

definition rich_text_to_markdown ::
  "(string \<Rightarrow> string option) \<Rightarrow> bool \<Rightarrow> rich_text \<Rightarrow> string" where
  "rich_text_to_markdown titles use_html_colors rich =
     concat (map (part_to_markdown titles use_html_colors) rich)"

text \<open>\<open>_rich_text_to_plain\<close>: the texts of the parts, joined.\<close>

definition rich_text_to_plain :: "rich_text \<Rightarrow> string" where
  "rich_text_to_plain rich = concat (map fst rich)"

subsection \<open>Span lists compared\<close>

text \<open>
  The annotation set the importer should attach for an exporter part, read off the part's
  annotation list alone: a flag is set when its annotation occurs in the list, and the
  color is the one the list names (the last, should it name several). Two span lists are
  compared character by character: each character with the annotation set and link it
  carries.
\<close>

fun highlights :: "ann list \<Rightarrow> string list" where
  "highlights [] = []"
| "highlights (Ann_h c # anns) = c # highlights anns"
| "highlights (a # anns) = highlights anns"

definition expected_annotations :: "ann list \<Rightarrow> annotations" where
  "expected_annotations anns =
     \<lparr> bold = (Ann_b \<in> set anns), italic = (Ann_i \<in> set anns),
       strikethrough = (Ann_s \<in> set anns), underline = (Ann_underline \<in> set anns),
       code = (Ann_c \<in> set anns),
       color = (if highlights anns = [] then None else Some (last (highlights anns))) \<rparr>"

definition part_chars :: "string \<times> ann list \<Rightarrow> (char \<times> annotations \<times> string option) list" where
  "part_chars part = map (\<lambda>c. (c, expected_annotations (snd part), None)) (fst part)"

definition segment_chars :: "segment \<Rightarrow> (char \<times> annotations \<times> string option) list" where
  "segment_chars seg = map (\<lambda>c. (c, seg_annotations seg, link seg)) (content seg)"

text \<open>
  The parts the round trip is stated for: a non-empty text without any of the encoder's
  special characters that neither starts nor ends with a space, under at least one
  annotation, each of them bold, italic, code or a color of the table.
\<close>

fun roundtrip_ann :: "ann \<Rightarrow> bool" where
  "roundtrip_ann Ann_b = True"
| "roundtrip_ann Ann_i = True"
| "roundtrip_ann Ann_c = True"
| "roundtrip_ann (Ann_h c) = (c \<in> set (map fst COLOR_MAP))"
| "roundtrip_ann a = False"

definition roundtrip_part :: "string \<times> ann list \<Rightarrow> bool" where
  "roundtrip_part part =
     (fst part \<noteq> [] \<and> list_all (\<lambda>c. \<not> is_special c) (fst part)
      \<and> hd (fst part) \<noteq> CHR '' '' \<and> last (fst part) \<noteq> CHR '' ''
      \<and> snd part \<noteq> [] \<and> list_all roundtrip_ann (snd part))"

subsection \<open>The Markdown of a part with bold, italic and code only\<close>

text \<open>
  Names for what \<open>apply_formatting\<close> builds when only bold, italic and code are set (the
  text under the code marker, then under the emphasis marker), and for the annotation
  dictionary the encoder reaches from \<open>ann\<close> by merging these three keys in.
\<close>

definition core :: "bool \<Rightarrow> string \<Rightarrow> string" where
  "core c t = (if c then [CHR 0x60] @ t @ [CHR 0x60] else t)"

definition emphasized :: "bool \<Rightarrow> bool \<Rightarrow> string \<Rightarrow> string" where
  "emphasized b i x =
     (if b \<and> i then ''***'' @ x @ ''***'' else if b then ''**'' @ x @ ''**''
      else if i then ''*'' @ x @ ''*'' else x)"

definition merge_flags :: "bool \<Rightarrow> bool \<Rightarrow> bool \<Rightarrow> annotations \<Rightarrow> annotations" where
  "merge_flags b i c ann =
     \<lparr> bold = (bold ann \<or> b), italic = (italic ann \<or> i), strikethrough = strikethrough ann,
       underline = underline ann, code = (code ann \<or> c), color = color ann \<rparr>"

text \<open>Three parts: bold and italic, bold and code, a color and bold.\<close>

definition ex_rich :: rich_text where
  "ex_rich = [(''Hello world'', [Ann_b, Ann_i]), (''x'', [Ann_b, Ann_c]),
              (''red'', [Ann_h ''red'', Ann_b])]"

section \<open>Importer: the line dispatch of the Markdown parser and its paragraph branch\<close>

text \<open>
  \<open>NotionImporter._parse_markdown\<close> (notion_import.py) scans the lines of the text; a
  blank line (\<open>not line.strip()\<close>) is skipped, any other line goes through an
  \<open>if\<close>/\<open>elif\<close> chain. The conditions of the chain, in its order. In the pattern of the
  numbered item a digit is an ASCII digit; Python's \<open>\d\<close> takes the decimal digits of
  other scripts too, and a line numbered with those is a paragraph line here.
\<close>

definition rule_heading :: "string \<Rightarrow> bool" where
  "rule_heading l = (prefix ''# '' l \<or> prefix ''## '' l \<or> prefix ''### '' l)"

definition rule_divider :: "string \<Rightarrow> bool" where
  "rule_divider l = (strip l = ''---'')"

definition rule_bullet :: "string \<Rightarrow> bool" where
  "rule_bullet l = prefix ''- '' (strip l)"

definition is_digit :: "char \<Rightarrow> bool" where
  "is_digit c = (c \<in> set ''0123456789'')"

text \<open>\<open>re.match(r"^\s*\d+\.\s", line)\<close>.\<close>

definition rule_numbered :: "string \<Rightarrow> bool" where
  "rule_numbered l =
     (let r = lstrip l
      in takeWhile is_digit r \<noteq> [] \<and>
         (case dropWhile is_digit r of
            [] \<Rightarrow> False
          | c # r2 \<Rightarrow> c = CHR ''.'' \<and> 0 < ws_len r2))"

definition rule_quote :: "string \<Rightarrow> bool" where
  "rule_quote l = prefix ''> '' l"

definition rule_code_fence :: "string \<Rightarrow> bool" where
  "rule_code_fence l = prefix [CHR 0x60, CHR 0x60, CHR 0x60] l"

definition rule_table :: "string \<Rightarrow> bool" where
  "rule_table l = prefix ''<table>'' (strip l)"

definition rule_details :: "string \<Rightarrow> bool" where
  "rule_details l = prefix ''<details>'' (strip l)"

definition rule_image :: "string \<Rightarrow> bool" where
  "rule_image l = prefix ''!['' (strip l)"

text \<open>The two marker strings of the source file, byte for byte.\<close>

definition video_marker :: string where
  "video_marker = [CHR ''['', CHR 0xC3, CHR 0xA2, CHR 0xE2, CHR 0x80, CHR 0x93, CHR 0xC2, CHR 0xB6]"

definition audio_marker :: string where
  "audio_marker =
     [CHR ''['', CHR 0xC4, CHR 0x9F, CHR 0xC5, CHR 0xB8, CHR 0xE2, CHR 0x80, CHR 0x9D,
      CHR 0xC5, CHR 0xA0]"

definition rule_embed :: "string \<Rightarrow> bool" where
  "rule_embed l = (prefix video_marker (strip l) \<or> prefix audio_marker (strip l))"

text \<open>
  \<open>re.match(r"^\[.+\]\(.+\)$", line.strip())\<close>: an opening bracket, a closing parenthesis
  at the end, and \<open>](\<close> somewhere between with a character on each side.
\<close>

definition rule_link_line :: "string \<Rightarrow> bool" where
  "rule_link_line l =
     (case strip l of
        [] \<Rightarrow> False
      | c # r \<Rightarrow>
          c = CHR ''['' \<and> r \<noteq> [] \<and> last r = CHR '')'' \<and>
          list_ex (\<lambda>i. take 2 (drop i (butlast r)) = '']('') [1..<length (butlast r) - 2])"

datatype line_kind =
    Heading | Divider | Bullet | Numbered | Quote | CodeFence | Table | Details | Image
  | Embed | LinkLine | Paragraph

definition classify :: "string \<Rightarrow> line_kind" where
  "classify l =
     (if rule_heading l then Heading
      else if rule_divider l then Divider
      else if rule_bullet l then Bullet
      else if rule_numbered l then Numbered
      else if rule_quote l then Quote
      else if rule_code_fence l then CodeFence
      else if rule_table l then Table
      else if rule_details l then Details
      else if rule_image l then Image
      else if rule_embed l then Embed
      else if rule_link_line l then LinkLine
      else Paragraph)"

text \<open>
  Rules 1 to 9 of the dispatch (heading; divider; bulleted or numbered item; quote or
  callout; code fence; table; details; image; video or audio marker): one of them would
  match the line.
\<close>

definition matches_rule_1_to_9 :: "string \<Rightarrow> bool" where
  "matches_rule_1_to_9 l =
     (classify l \<in> {Heading, Divider, Bullet, Numbered, Quote, CodeFence, Table, Details,
                    Image, Embed})"

text \<open>
  The paragraph branch. The condition of its \<open>while\<close> loop on the next line, the loop,
  and the text of the paragraph, \<open>" ".join(para_lines)\<close>; the branch gives the text and the
  lines left for the dispatch.
\<close>

definition absorbs :: "string \<Rightarrow> bool" where
  "absorbs l =
     (strip l \<noteq> [] \<and> \<not> prefix ''#'' l \<and> \<not> prefix ''-'' l \<and> \<not> prefix ''>'' l
      \<and> \<not> prefix [CHR 0x60, CHR 0x60, CHR 0x60] l \<and> \<not> prefix ''!['' l
      \<and> strip l \<noteq> ''---'')"

fun para_loop :: "string list \<Rightarrow> string list \<Rightarrow> string list \<times> string list" where
  "para_loop para_lines [] = (para_lines, [])"
| "para_loop para_lines (l # ls) =
     (if absorbs l then para_loop (para_lines @ [l]) ls else (para_lines, l # ls))"

fun join :: "string \<Rightarrow> string list \<Rightarrow> string" where
  "join sep [] = []"
| "join sep [x] = x"
| "join sep (x # y # ys) = x @ sep @ join sep (y # ys)"

definition paragraph_branch :: "string \<Rightarrow> string list \<Rightarrow> string \<times> string list" where
  "paragraph_branch line following =
     (case para_loop [line] following of (para_lines, left) \<Rightarrow> (join '' '' para_lines, left))"

section \<open>Exporter: rendering the block tree\<close>

text \<open>
  \<open>NotionPublicExporter._render_block\<close> (notion_public_export.py). A block is the
  dictionary the record map holds for an identifier, read through its \<open>value\<close> key when it
  has one; the fields are those the renderer and the export pipeline read (the collection
  identifier is \<open>format.collection_pointer.id\<close>). A rich-text property that is missing
  is the empty list, a missing string is \<open>None\<close>. The mapping \<open>blocks\<close> gives the block of
  an identifier; an identifier that is absent, or whose wrapper or value is empty, has none
  (the source returns at once for each of them).
\<close>

record block =
  b_id :: string
  b_type :: string
  b_alive :: bool
  b_space_id :: "string option"
  b_title :: rich_text
  b_checked :: rich_text
  b_language :: rich_text
  b_source :: rich_text
  b_content :: "string list"
  b_view_ids :: "string list"
  f_collection_id :: "string option"
  f_page_icon :: "string option"
  f_display_source :: "string option"
  f_source :: "string option"
  f_link_title :: "string option"
  f_page_id :: "string option"
  f_page_ref :: "string option"

text \<open>
  What the renderer takes from outside: the titles of mentioned pages, the result of
  \<open>_download_file\<close> (a relative path, or the URL when the download fails), and two string
  functions that depend on the Unicode tables, \<open>_slugify\<close> and \<open>str.lower\<close>.
\<close>

record env =
  page_titles :: "string \<Rightarrow> string option"
  download_file :: "string \<Rightarrow> string \<Rightarrow> string option \<Rightarrow> string"
  slugify :: "string \<Rightarrow> string"
  str_lower :: "string \<Rightarrow> string"

text \<open>Python's \<open>a or b\<close> on strings, and on an optional string and a string.\<close>

definition or_else :: "string \<Rightarrow> string \<Rightarrow> string" where
  "or_else a b = (if a \<noteq> [] then a else b)"

definition opt_or :: "string option \<Rightarrow> string \<Rightarrow> string" where
  "opt_or a b = (case a of None \<Rightarrow> b | Some x \<Rightarrow> if x \<noteq> [] then x else b)"

text \<open>The literals outside ASCII, as UTF-8 bytes: the two icons and the two glyphs.\<close>

definition default_icon :: string where
  "default_icon = [CHR 0xF0, CHR 0x9F, CHR 0x92, CHR 0xA1]"

definition arrow_icon :: string where
  "arrow_icon = [CHR 0xE2, CHR 0x9E, CHR 0xA1, CHR 0xEF, CHR 0xB8, CHR 0x8F]"

definition video_glyph :: string where
  "video_glyph = [CHR 0xE2, CHR 0x96, CHR 0xB6]"

definition audio_glyph :: string where
  "audio_glyph = [CHR 0xF0, CHR 0x9F, CHR 0x94, CHR 0x8A]"

definition video_platforms :: "string list" where
  "video_platforms = [''youtube.com'', ''youtu.be'', ''vimeo.com'', ''wistia.com'',
                      ''dailymotion.com'', ''twitch.tv'', ''facebook.com/watch'']"

definition audio_platforms :: "string list" where
  "audio_platforms = [''soundcloud.com'', ''spotify.com'', ''open.spotify.com'',
                      ''podcasts.apple.com'', ''anchor.fm'']"

text \<open>The icon of a callout line.\<close>

definition callout_icon :: "block \<Rightarrow> string" where
  "callout_icon b =
     (let icon = (case f_page_icon b of None \<Rightarrow> default_icon | Some i \<Rightarrow> i)
      in if prefix ''/icons/'' icon then arrow_icon else icon)"

text \<open>
  The first loop of the \<open>column_list\<close> branch: the child lists of the children that
  resolve to a block of type \<open>column\<close>, in order.
\<close>

fun columns_content :: "(string \<rightharpoonup> block) \<Rightarrow> string list \<Rightarrow> string list list" where
  "columns_content blocks [] = []"
| "columns_content blocks (col_id # ids) =
     (case blocks col_id of
        None \<Rightarrow> columns_content blocks ids
      | Some col_block \<Rightarrow>
          if b_type col_block = ''column''
          then b_content col_block # columns_content blocks ids
          else columns_content blocks ids)"

text \<open>The outputs of a sequence of calls, joined; \<open>None\<close> when one of them does not return.\<close>

fun join_outputs :: "string option list \<Rightarrow> string option" where
  "join_outputs [] = Some []"
| "join_outputs (None # rs) = None"
| "join_outputs (Some a # rs) = (case join_outputs rs of None \<Rightarrow> None | Some b \<Rightarrow> Some (a @ b))"

text \<open>
  What the branches of the leaf block types write for the block itself, before the generic
  recursion into the children.
\<close>

definition media_url_source_first :: "block \<Rightarrow> string" where
  "media_url_source_first b =
     (let url = rich_text_to_plain (b_source b)
      in if url \<noteq> [] then url
         else (case f_display_source b of
                 Some d \<Rightarrow> if d \<noteq> [] then d else opt_or (f_source b) []
               | None \<Rightarrow> opt_or (f_source b) []))"

definition own_lines :: "env \<Rightarrow> string \<Rightarrow> block \<Rightarrow> nat \<Rightarrow> string option \<Rightarrow> string" where
  "own_lines e block_id b indent space_id =
     (let btype = b_type b;
          t = rich_text_to_markdown (page_titles e) True (b_title b);
          plain_text = rich_text_to_plain (b_title b);
          pad = concat (replicate indent ''  '')
      in if btype = ''header'' then [CHR 0x0A] @ ''# '' @ t @ [CHR 0x0A, CHR 0x0A]
         else if btype = ''sub_header'' then [CHR 0x0A] @ ''## '' @ t @ [CHR 0x0A, CHR 0x0A]
         else if btype = ''sub_sub_header'' then [CHR 0x0A] @ ''### '' @ t @ [CHR 0x0A, CHR 0x0A]
         else if btype = ''bulleted_list'' then pad @ ''- '' @ t @ [CHR 0x0A]
         else if btype = ''numbered_list'' then pad @ ''1. '' @ t @ [CHR 0x0A]
         else if btype = ''to_do'' then
           (let checked = rich_text_to_plain (b_checked b) \<in> {''Yes'', ''true'', ''True''};
                mark = (if checked then ''x'' else '' '')
            in pad @ ''- ['' @ mark @ ''] '' @ t @ [CHR 0x0A])
         else if btype = ''quote'' then ''> '' @ t @ [CHR 0x0A, CHR 0x0A]
         else if btype = ''code'' then
           [CHR 0x0A, CHR 0x60, CHR 0x60, CHR 0x60] @ rich_text_to_plain (b_language b)
             @ [CHR 0x0A] @ plain_text @ [CHR 0x0A, CHR 0x60, CHR 0x60, CHR 0x60, CHR 0x0A, CHR 0x0A]
         else if btype = ''embed'' then
           (let url = (case f_display_source b of
                         Some d \<Rightarrow> if d \<noteq> [] then d else opt_or (f_source b) []
                       | None \<Rightarrow> opt_or (f_source b) []);
                url' = (if url = [] then rich_text_to_plain (b_source b) else url)
            in if url' \<noteq> []
               then ''['' @ or_else t (opt_or (f_link_title b) ''Embedded content'')
                      @ '']('' @ url' @ '')'' @ [CHR 0x0A, CHR 0x0A]
               else [])
         else if btype = ''video'' then
           (let url = media_url_source_first b
            in if url \<noteq> [] \<and> list_ex (\<lambda>p. contains p (str_lower e url)) video_platforms then
                 ''['' @ video_glyph @ '' '' @ opt_or (f_link_title b) (or_else t ''Video'')
                   @ '']('' @ or_else (rich_text_to_plain (b_source b)) url @ '')''
                   @ [CHR 0x0A, CHR 0x0A]
               else if url \<noteq> [] then
                 ''!['' @ or_else t ''video'' @ '']('' @ download_file e url block_id space_id
                   @ '')'' @ [CHR 0x0A, CHR 0x0A]
               else [])
         else if btype = ''audio'' then
           (let url = media_url_source_first b
            in if url \<noteq> [] \<and> list_ex (\<lambda>p. contains p (str_lower e url)) audio_platforms then
                 ''['' @ audio_glyph @ '' '' @ opt_or (f_link_title b) (or_else t ''Audio'')
                   @ '']('' @ url @ '')'' @ [CHR 0x0A, CHR 0x0A]
               else if url \<noteq> [] then
                 ''!['' @ or_else t ''audio'' @ '']('' @ download_file e url block_id space_id
                   @ '')'' @ [CHR 0x0A, CHR 0x0A]
               else [])
         else if btype \<in> {''image'', ''file'', ''pdf''} then
           (let url = media_url_source_first b
            in if url \<noteq> [] then
                 ''!['' @ or_else t btype @ '']('' @ download_file e url block_id space_id
                   @ '')'' @ [CHR 0x0A, CHR 0x0A]
               else [])
         else if btype = ''link_to_page'' then
           (let target_id = (case f_page_id b of
                               Some i \<Rightarrow> if i \<noteq> [] then i else opt_or (f_page_ref b) []
                             | None \<Rightarrow> opt_or (f_page_ref b) []);
                label = or_else t ''linked page''
            in if target_id \<noteq> []
               then [CHR 0x0A] @ ''['' @ label @ '']('' @ slugify e (or_else label (take 6 target_id))
                      @ ''/index.md)'' @ [CHR 0x0A, CHR 0x0A]
               else [])
         else if btype = ''divider'' then [CHR 0x0A] @ ''---'' @ [CHR 0x0A, CHR 0x0A]
         else if btype = ''child_page'' then
           (let slug = slugify e (or_else t (take 6 (b_id b)))
            in [CHR 0x0A] @ ''['' @ or_else t slug @ '']('' @ slug @ ''/index.md)''
                 @ [CHR 0x0A, CHR 0x0A])
         else if btype = ''text'' then (if t \<noteq> [] then [CHR 0x0A] @ t @ [CHR 0x0A] else [])
         else (if t \<noteq> [] then t @ [CHR 0x0A] else []))"

text \<open>
  The renderer. Its result is what one call writes to \<open>out\<close>. The recursion follows child
  identifiers through \<open>blocks\<close>, which may lead back to a block already being rendered:
  the first argument bounds the depth of the calls, and the result is \<open>None\<close> when the
  bound is reached (the call does not return).
\<close>

fun render_block ::
  "nat \<Rightarrow> env \<Rightarrow> (string \<rightharpoonup> block) \<Rightarrow> nat \<Rightarrow> string option \<Rightarrow> string \<Rightarrow> string option" where
  "render_block 0 e blocks indent space_id block_id = None"
| "render_block (Suc n) e blocks indent space_id block_id =
     (case blocks block_id of
        None \<Rightarrow> Some []
      | Some b \<Rightarrow>
          if \<not> b_alive b then Some []
          else
            let btype = b_type b;
                t = rich_text_to_markdown (page_titles e) True (b_title b);
                space_id' = (case space_id of
                               None \<Rightarrow> b_space_id b
                             | Some s \<Rightarrow> if s \<noteq> [] then Some s else b_space_id b);
                children = (\<lambda>ind ids. join_outputs (map (render_block n e blocks ind space_id') ids))
            in if btype = ''column_list'' then
                 (if b_content b = [] then Some []
                  else
                    let cols = columns_content blocks (b_content b)
                    in if length cols > 1 then
                         (case join_outputs
                                 (map (\<lambda>col_children.
                                         case children 0 col_children of
                                           None \<Rightarrow> None
                                         | Some r \<Rightarrow>
                                             Some (''<td valign=\"top\">'' @ [CHR 0x0A, CHR 0x0A] @ r
                                                   @ [CHR 0x0A] @ ''</td>'' @ [CHR 0x0A]))
                                      cols) of
                            None \<Rightarrow> None
                          | Some cells \<Rightarrow>
                              Some ([CHR 0x0A] @ ''<table><tr>'' @ [CHR 0x0A] @ cells
                                    @ ''</tr></table>'' @ [CHR 0x0A, CHR 0x0A]))
                       else join_outputs (map (children indent) cols))
               else if btype = ''column'' then Some []
               else if btype = ''callout'' then
                 (let hoist = (strip t = [] \<and> b_content b \<noteq> []
                               \<and> blocks (hd (b_content b)) \<noteq> None);
                      t' = (if hoist
                            then (case blocks (hd (b_content b)) of
                                    None \<Rightarrow> t
                                  | Some first_child \<Rightarrow>
                                      rich_text_to_markdown (page_titles e) True (b_title first_child))
                            else t);
                      child_ids = (if hoist then tl (b_content b) else b_content b)
                  in case children indent child_ids of
                       None \<Rightarrow> None
                     | Some r \<Rightarrow>
                         Some (''> '' @ callout_icon b @ '' '' @ t' @ [CHR 0x0A, CHR 0x0A] @ r))
               else if btype = ''toggle'' then
                 (case children indent (b_content b) of
                    None \<Rightarrow> None
                  | Some r \<Rightarrow>
                      Some ([CHR 0x0A] @ ''<details>'' @ [CHR 0x0A] @ ''<summary>'' @ t
                            @ ''</summary>'' @ [CHR 0x0A, CHR 0x0A] @ r
                            @ [CHR 0x0A] @ ''</details>'' @ [CHR 0x0A, CHR 0x0A]))
               else
                 (let next_indent =
                        indent + (if btype \<in> {''bulleted_list'', ''numbered_list'', ''to_do''}
                                  then 1 else 0)
                  in case children next_indent (b_content b) of
                       None \<Rightarrow> None
                     | Some r \<Rightarrow> Some (own_lines e block_id b indent space_id' @ r)))"

text \<open>The loop \<open>for cid in child_ids: self._render_block(cid, ...)\<close>.\<close>

definition render_blocks ::
  "nat \<Rightarrow> env \<Rightarrow> (string \<rightharpoonup> block) \<Rightarrow> nat \<Rightarrow> string option \<Rightarrow> string list \<Rightarrow> string option" where
  "render_blocks n e blocks indent space_id ids =
     join_outputs (map (render_block n e blocks indent space_id) ids)"

text \<open>The space identifier the children of a block are rendered with.\<close>

definition child_space :: "string option \<Rightarrow> block \<Rightarrow> string option" where
  "child_space space_id b =
     (case space_id of None \<Rightarrow> b_space_id b | Some s \<Rightarrow> if s \<noteq> [] then Some s else b_space_id b)"

subsection \<open>Example block maps\<close>

text \<open>
  An environment without page titles whose downloads give the URL back, a block with only
  its type, title and children set, a callout with an empty title and two text children,
  and a column list of two columns, the second of them empty.
\<close>

definition ex_env :: env where
  "ex_env = \<lparr> page_titles = (\<lambda>p. None), download_file = (\<lambda>url bid sp. url),
              slugify = (\<lambda>s. s), str_lower = (\<lambda>s. s) \<rparr>"

definition mk_block :: "string \<Rightarrow> string \<Rightarrow> rich_text \<Rightarrow> string list \<Rightarrow> block" where
  "mk_block i ty t kids =
     \<lparr> b_id = i, b_type = ty, b_alive = True, b_space_id = None, b_title = t, b_checked = [],
       b_language = [], b_source = [], b_content = kids, b_view_ids = [],
       f_collection_id = None, f_page_icon = None,
       f_display_source = None, f_source = None, f_link_title = None, f_page_id = None,
       f_page_ref = None \<rparr>"

definition callout_blocks :: "string \<rightharpoonup> block" where
  "callout_blocks =
     [''c'' \<mapsto> mk_block ''c'' ''callout'' [] [''k1'', ''k2''],
      ''k1'' \<mapsto> mk_block ''k1'' ''text'' [(''Note: hello'', [])] [],
      ''k2'' \<mapsto> mk_block ''k2'' ''text'' [(''more'', [])] []]"

definition column_blocks :: "string \<rightharpoonup> block" where
  "column_blocks =
     [''cl'' \<mapsto> mk_block ''cl'' ''column_list'' [] [''a'', ''b''],
      ''a'' \<mapsto> mk_block ''a'' ''column'' [] [''p''],
      ''b'' \<mapsto> mk_block ''b'' ''column'' [] [],
      ''p'' \<mapsto> mk_block ''p'' ''text'' [(''left'', [])] []]"

definition one_column_blocks :: "string \<rightharpoonup> block" where
  "one_column_blocks =
     [''cl'' \<mapsto> mk_block ''cl'' ''column_list'' [] [''a''],
      ''a'' \<mapsto> mk_block ''a'' ''column'' [] [''p''],
      ''p'' \<mapsto> mk_block ''p'' ''text'' [(''left'', [])] []]"

section \<open>Exporter: the export pipeline and the visited set\<close>

text \<open>
  \<open>NotionPublicExporter.export_tree\<close> and \<open>_export_page\<close> (notion_public_export.py).
  The remote side is a parameter: \<open>record_map\<close> is what \<open>fetch_record_map\<close> gives for a
  page (its blocks in the order of the dictionary, entries with an empty value left out,
  or the \<open>RuntimeError\<close> it lets escape), \<open>collection_pages\<close> is what \<open>query_collection\<close>
  gives (the empty list when the query fails). The state of a run is the set
  \<open>seen_pages\<close>; to state what a run did, the model also records the identifiers \<open>_export_page\<close>
  went on to fetch, and the pages it wrote with their directory, each in order. The content of
  the written file is the output of the renderer and is not recorded.
\<close>

record world =
  record_map :: "string \<Rightarrow> runtime_error + (string \<times> block) list"
  collection_pages :: "string \<Rightarrow> string \<Rightarrow> string list"
  skip_titles :: "string set"

record export_state =
  seen_pages :: "string set"
  fetched :: "string list"
  written :: "(string \<times> string list) list"

definition initial_export_state :: export_state where
  "initial_export_state = \<lparr> seen_pages = {}, fetched = [], written = [] \<rparr>"

datatype outcome = Returned | Raised

text \<open>
  The loop over \<open>blocks.items()\<close> at the end of \<open>_export_page\<close> calls \<open>_export_page\<close> for
  a sequence of pages: for a live block other than the page itself, the block's own
  identifier under the page's directory when it is a \<open>child_page\<close> or a \<open>page\<close>, and the
  members of the first view's collection under the output directory when it is a
  \<open>collection_view\<close> with a collection and a view. The sequence, in the order of the calls:
\<close>

definition block_targets ::
  "world \<Rightarrow> string \<Rightarrow> string list \<Rightarrow> string list \<Rightarrow> block \<Rightarrow> (string \<times> string list) list" where
  "block_targets w page_id page_dir output_dir bval =
     (if \<not> b_alive bval then []
      else if b_id bval = page_id then []
      else if b_type bval \<in> {''child_page'', ''page''} then [(b_id bval, page_dir)]
      else if b_type bval = ''collection_view'' then
        (case f_collection_id bval of
           None \<Rightarrow> []
         | Some collection_id \<Rightarrow>
             if collection_id \<noteq> [] \<and> b_view_ids bval \<noteq> []
             then map (\<lambda>sub_page_id. (sub_page_id, output_dir))
                    (collection_pages w collection_id (hd (b_view_ids bval)))
             else [])
      else [])"

definition export_targets ::
  "world \<Rightarrow> string \<Rightarrow> string list \<Rightarrow> string list \<Rightarrow> (string \<times> block) list
     \<Rightarrow> (string \<times> string list) list" where
  "export_targets w page_id page_dir output_dir blocks =
     concat (map (\<lambda>(bid, bval). block_targets w page_id page_dir output_dir bval) blocks)"

text \<open>
  Calls in sequence on the running state; an exception of one call ends the sequence, as
  does a call that does not return.
\<close>

fun run_all ::
  "(string \<Rightarrow> string list \<Rightarrow> export_state \<Rightarrow> (outcome \<times> export_state) option)
     \<Rightarrow> (string \<times> string list) list \<Rightarrow> export_state \<Rightarrow> (outcome \<times> export_state) option" where
  "run_all f [] st = Some (Returned, st)"
| "run_all f ((page_id, dir) # ts) st =
     (case f page_id dir st of
        None \<Rightarrow> None
      | Some (Raised, st') \<Rightarrow> Some (Raised, st')
      | Some (Returned, st') \<Rightarrow> run_all f ts st')"

text \<open>
  \<open>_export_page\<close>. The pages of the remote graph may go on without end, so the first
  argument bounds the depth of the calls: \<open>None\<close> when the bound is reached.
\<close>

fun export_page ::
  "nat \<Rightarrow> env \<Rightarrow> world \<Rightarrow> string list \<Rightarrow> string \<Rightarrow> string list \<Rightarrow> export_state
     \<Rightarrow> (outcome \<times> export_state) option" where
  "export_page 0 e w output_dir page_id parent_dir st = None"
| "export_page (Suc n) e w output_dir page_id parent_dir st =
     (if page_id \<in> seen_pages st then Some (Returned, st)
      else
        let st1 = st\<lparr>seen_pages := insert page_id (seen_pages st),
                     fetched := fetched st @ [page_id]\<rparr>
        in (case record_map w page_id of
              Inl err \<Rightarrow> Some (Raised, st1)
            | Inr blocks \<Rightarrow>
                (case map_of blocks page_id of
                   None \<Rightarrow> Some (Returned, st1)
                 | Some page_block \<Rightarrow>
                     let page_title = or_else (rich_text_to_plain (b_title page_block)) ''untitled''
                     in if page_title \<in> skip_titles w then Some (Returned, st1)
                        else
                          let page_dir = parent_dir @ [slugify e page_title];
                              st2 = st1\<lparr>written := written st1 @ [(page_id, page_dir)]\<rparr>
                          in run_all (export_page n e w output_dir)
                               (export_targets w page_id page_dir output_dir blocks) st2)))"

text \<open>\<open>export_tree\<close>: normalize the root, then export it under the output directory.\<close>

definition export_tree ::
  "nat \<Rightarrow> env \<Rightarrow> world \<Rightarrow> (string \<Rightarrow> request_exception + string) \<Rightarrow> string list \<Rightarrow> string
     \<Rightarrow> (value_error + outcome \<times> export_state) option" where
  "export_tree n e w http_get output_dir root_url =
     (case normalize_page_id http_get root_url of
        Inl err \<Rightarrow> Some (Inl err)
      | Inr root_id \<Rightarrow>
          map_option Inr (export_page n e w output_dir root_id output_dir initial_export_state))"

text \<open>
  A page \<open>root\<close> holding a child page \<open>kid\<close> and a database view whose collection has the
  members \<open>kid\<close> and \<open>other\<close>.
\<close>

definition page_block :: "string \<Rightarrow> string \<Rightarrow> block" where
  "page_block i t = mk_block i ''page'' [(t, [])] []"

definition ex_world :: world where
  "ex_world =
     \<lparr> record_map = (\<lambda>page_id.
          if page_id = ''11111111-1111-1111-1111-111111111111'' then
            Inr [(''11111111-1111-1111-1111-111111111111'',
                    page_block ''11111111-1111-1111-1111-111111111111'' ''Root''),
                 (''kid'', mk_block ''kid'' ''child_page'' [(''Kid'', [])] []),
                 (''view'', (mk_block ''view'' ''collection_view'' [] [])
                     \<lparr>b_view_ids := [''v1''], f_collection_id := Some ''coll''\<rparr>)]
          else if page_id = ''kid'' then Inr [(''kid'', page_block ''kid'' ''Kid'')]
          else if page_id = ''other'' then Inr [(''other'', page_block ''other'' ''Other'')]
          else Inr []),
       collection_pages = (\<lambda>collection_id view_id.
          if collection_id = ''coll'' \<and> view_id = ''v1'' then [''kid'', ''other''] else []),
       skip_titles = {} \<rparr>"

text \<open>
  What "at most once" says of a state: no identifier was fetched twice or written twice,
  the fetched identifiers are exactly the visited set, and only fetched pages were written.
\<close>

definition visited_once :: "export_state \<Rightarrow> bool" where
  "visited_once st =
     (distinct (fetched st) \<and> set (fetched st) = seen_pages st
      \<and> distinct (map fst (written st)) \<and> set (map fst (written st)) \<subseteq> set (fetched st))"

section \<open>Properties\<close>

subsection \<open>Page creation\<close>





subsection \<open>Record-map assembly\<close>

lemma fetch_loop_fold_aux:
  fixes api0 :: "('v, 's, 'o) api"
  assumes run: "fetch_loop api0 pid0 cur0 n0 m0 = Some res0"
  shows "\<forall>r chunks. res0 = Inr r \<longrightarrow>
           (\<exists>cs. merged_chunks api0 pid0 cur0 n0 chunks = Some (chunks @ cs)
                 \<and> r = foldl (++) m0 cs)"
proof (rule fetch_loop.raw_induct
    [where P = "\<lambda>api pid cur n m res. \<forall>r chunks. res = Inr r \<longrightarrow>
           (\<exists>cs. merged_chunks api pid cur n chunks = Some (chunks @ cs) \<and> r = foldl (++) m cs)",
     OF _ run])
  fix fl :: "('v, 's, 'o) api \<Rightarrow> string \<Rightarrow> ('s, 'o) cursor \<Rightarrow> nat \<Rightarrow> (string \<rightharpoonup> 'v)
                \<Rightarrow> (runtime_error + (string \<rightharpoonup> 'v)) option"
    and api :: "('v, 's, 'o) api" and pid cur n m res
  assume ih: "\<And>a p c k b y. fl a p c k b = Some y \<Longrightarrow>
     \<forall>r chunks. y = Inr r \<longrightarrow>
       (\<exists>cs. merged_chunks a p c k chunks = Some (chunks @ cs) \<and> r = foldl (++) b cs)"
  assume step: "(case load_chunk api pid cur n of
        Inl e \<Rightarrow> Some (Inl e)
      | Inr d \<Rightarrow>
          if record_map_block d = Map.empty then Some (Inr m)
          else if data_cursor d = cur \<or> stack (data_cursor d) = []
            then Some (Inr (m ++ record_map_block d))
            else fl api pid (data_cursor d) (n + 1) (m ++ record_map_block d)) = Some res"
  show "\<forall>r chunks. res = Inr r \<longrightarrow>
          (\<exists>cs. merged_chunks api pid cur n chunks = Some (chunks @ cs) \<and> r = foldl (++) m cs)"
  proof (intro allI impI)
    fix r chunks
    assume res: "res = Inr r"
    show "\<exists>cs. merged_chunks api pid cur n chunks = Some (chunks @ cs) \<and> r = foldl (++) m cs"
    proof (cases "load_chunk api pid cur n")
      case (Inl e)
      with step res show ?thesis by simp
    next
      case (Inr d)
      show ?thesis
      proof (cases "record_map_block d = Map.empty")
        case True
        with Inr step res have "r = m" by simp
        moreover from Inr True have "merged_chunks api pid cur n chunks = Some chunks"
          by (subst merged_chunks.simps) simp
        ultimately show ?thesis by simp
      next
        case False
        show ?thesis
        proof (cases "data_cursor d = cur \<or> stack (data_cursor d) = []")
          case True
          with Inr False step res have "r = m ++ record_map_block d" by auto
          moreover from Inr False True
          have "merged_chunks api pid cur n chunks = Some (chunks @ [record_map_block d])"
            by (subst merged_chunks.simps) auto
          ultimately show ?thesis by simp
        next
          case go_on: False
          with Inr False step res
          have "fl api pid (data_cursor d) (n + 1) (m ++ record_map_block d) = Some (Inr r)"
            by auto
          from ih [OF this]
          have "\<exists>cs. merged_chunks api pid (data_cursor d) (n + 1) (chunks @ [record_map_block d])
                  = Some ((chunks @ [record_map_block d]) @ cs)
                \<and> r = foldl (++) (m ++ record_map_block d) cs"
            by blast
          then obtain cs where cs:
            "merged_chunks api pid (data_cursor d) (n + 1) (chunks @ [record_map_block d])
               = Some ((chunks @ [record_map_block d]) @ cs)"
            "r = foldl (++) (m ++ record_map_block d) cs"
            by blast
          from Inr False go_on cs(1)
          have "merged_chunks api pid cur n chunks = Some (chunks @ (record_map_block d # cs))"
            by (subst merged_chunks.simps) auto
          with cs(2) show ?thesis by auto
        qed
      qed
    qed
  qed
qed

lemma foldl_map_add_dom: "dom (foldl (++) m cs) = dom m \<union> (\<Union>c \<in> set cs. dom c)"
  by (induction cs arbitrary: m) auto

lemma foldl_map_add_last:
  "foldl (++) m cs k =
     (case find (\<lambda>c. c k \<noteq> None) (rev cs) of None \<Rightarrow> m k | Some c \<Rightarrow> c k)"
  by (induction cs rule: rev_induct) (auto simp: map_add_def split: option.splits)

text \<open>
  C2 (as amended): when the assembly returns, the merged mapping is the right-biased union
  of the chunk mappings it merged, in order: its identifiers are exactly those of the
  chunks, and an identifier held by several chunks keeps the entry of the last of them
  (\<open>dict.update\<close> overwrites).
\<close>

theorem fetch_record_map_right_biased:
  assumes "fetch_record_map api page_id = Some (Inr merged)"
  shows "\<exists>cs. merged_chunks api page_id initial_cursor 0 [] = Some cs
           \<and> merged = foldl (++) Map.empty cs
           \<and> dom merged = (\<Union>c \<in> set cs. dom c)
           \<and> (\<forall>k. merged k =
                (case find (\<lambda>c. c k \<noteq> None) (rev cs) of None \<Rightarrow> None | Some c \<Rightarrow> c k))"
proof -
  from fetch_loop_fold_aux [OF assms [unfolded fetch_record_map_def], rule_format, OF refl, of "[]"]
  obtain cs where cs: "merged_chunks api page_id initial_cursor 0 [] = Some cs"
    "merged = foldl (++) Map.empty cs" by auto
  from cs(2) have "dom merged = (\<Union>c \<in> set cs. dom c)"
    by (simp add: foldl_map_add_dom)
  moreover from cs(2)
  have "\<forall>k. merged k =
          (case find (\<lambda>c. c k \<noteq> None) (rev cs) of None \<Rightarrow> None | Some c \<Rightarrow> c k)"
    by (simp add: foldl_map_add_last)
  ultimately show ?thesis using cs by blast
qed

theorem fetch_record_map_right_biased_witness:
  "fetch_record_map two_chunk_api ''p'' = Some (Inr [''a'' \<mapsto> 2, ''b'' \<mapsto> 3])
   \<and> (\<exists>cs. merged_chunks two_chunk_api ''p'' initial_cursor 0 [] = Some cs
           \<and> [''a'' \<mapsto> 2, ''b'' \<mapsto> 3] = foldl (++) Map.empty cs
           \<and> dom [''a'' \<mapsto> 2::nat, ''b'' \<mapsto> 3] = (\<Union>c \<in> set cs. dom c))"
proof -
  have run: "fetch_record_map two_chunk_api ''p'' = Some (Inr [''a'' \<mapsto> 2, ''b'' \<mapsto> 3])"
    by (simp add: fetch_record_map_def fetch_loop.simps load_chunk_def two_chunk_api_def
        initial_cursor_def)
  from fetch_record_map_right_biased [OF run] run show ?thesis by blast
qed

text \<open>
  The claim as stated fails: the identifier \<open>a\<close> arrives with entry 1 in the first chunk
  and is overwritten by the second chunk's entry 2.
\<close>

theorem fetch_record_map_overwrites:
  "merged_chunks two_chunk_api ''p'' initial_cursor 0 []
     = Some [[''a'' \<mapsto> 1], [''a'' \<mapsto> 2, ''b'' \<mapsto> 3]]
   \<and> fetch_record_map two_chunk_api ''p'' = Some (Inr [''a'' \<mapsto> 2, ''b'' \<mapsto> 3])
   \<and> [''a'' \<mapsto> 2::nat, ''b'' \<mapsto> 3] ''a'' \<noteq> [''a'' \<mapsto> 1] ''a''"
  by (simp add: fetch_record_map_def fetch_loop.simps merged_chunks.simps load_chunk_def
      two_chunk_api_def initial_cursor_def)

subsection \<open>Identifier normalization\<close>

lemma not_hex_simps [simp]:
  "\<not> is_hex CHR ''-''" "\<not> is_hex CHR ''/''" "\<not> is_hex CHR ''?''" "\<not> is_hex (CHR 0x0A)"
  by (simp_all add: is_hex_def)

lemma lower_char_dash [simp]: "lower_char CHR ''-'' = CHR ''-''"
  by (simp add: lower_char_def)

lemma lower_append [simp]: "lower (a @ b) = lower a @ lower b"
  by (simp add: lower_def)

lemma lower_Cons [simp]: "lower (c # s) = lower_char c # lower s"
  by (simp add: lower_def)

lemma lower_Nil [simp]: "lower [] = []"
  by (simp add: lower_def)

lemma length_lower [simp]: "length (lower s) = length s"
  by (simp add: lower_def)

lemma search_hex32_Some:
  "search_hex32 s = Some h \<Longrightarrow> is_hex32 h \<and> (\<exists>a b. s = a @ h @ b)"
proof (induction s)
  case Nil
  then show ?case by simp
next
  case (Cons c cs)
  show ?case
  proof (cases "is_hex32 (take 32 (c # cs))")
    case True
    with Cons.prems have h: "h = take 32 (c # cs)" by simp
    have "c # cs = [] @ h @ drop 32 (c # cs)" unfolding h by simp
    with True h show ?thesis by blast
  next
    case False
    with Cons.prems have "search_hex32 cs = Some h" by simp
    from Cons.IH [OF this] obtain a b where "is_hex32 h" "cs = a @ h @ b" by blast
    then have "c # cs = (c # a) @ h @ b" by simp
    with \<open>is_hex32 h\<close> show ?thesis by blast
  qed
qed

lemma search_hex32_end_Some:
  "search_hex32_end s = Some h \<Longrightarrow> is_hex32 h \<and> (\<exists>a b. s = a @ h @ b)"
proof (induction s)
  case Nil
  then show ?case by simp
next
  case (Cons c cs)
  show ?case
  proof (cases "is_hex32 (take 32 (c # cs)) \<and>
      (drop 32 (c # cs) = [] \<or> drop 32 (c # cs) = [CHR 0x0A])")
    case True
    with Cons.prems have h: "h = take 32 (c # cs)" by simp
    have "c # cs = [] @ h @ drop 32 (c # cs)" unfolding h by simp
    with True h show ?thesis by blast
  next
    case False
    with Cons.prems have "search_hex32_end cs = Some h" by auto
    from Cons.IH [OF this] obtain a b where "is_hex32 h" "cs = a @ h @ b" by blast
    then have "c # cs = (c # a) @ h @ b" by simp
    with \<open>is_hex32 h\<close> show ?thesis by blast
  qed
qed

lemma search_uuid_Some:
  "search_uuid s = Some u \<Longrightarrow> is_uuid u \<and> (\<exists>a b. s = a @ u @ b)"
proof (induction s)
  case Nil
  then show ?case by simp
next
  case (Cons c cs)
  show ?case
  proof (cases "is_uuid (take 36 (c # cs))")
    case True
    with Cons.prems have u: "u = take 36 (c # cs)" by simp
    have "c # cs = [] @ u @ drop 36 (c # cs)" unfolding u by simp
    with True u show ?thesis by blast
  next
    case False
    with Cons.prems have "search_uuid cs = Some u" by simp
    from Cons.IH [OF this] obtain a b where "is_uuid u" "cs = a @ u @ b" by blast
    then have "c # cs = (c # a) @ u @ b" by simp
    with \<open>is_uuid u\<close> show ?thesis by blast
  qed
qed

lemma match_hex_groups_step:
  assumes "match_hex_groups (n # k # ns) s"
  shows "\<exists>g r. s = g @ ''-'' @ r \<and> length g = n \<and> list_all is_hex g \<and> match_hex_groups (k # ns) r"
proof -
  from assms obtain r where r: "drop n s = CHR ''-'' # r" and m: "match_hex_groups (k # ns) r"
    and g: "length (take n s) = n" "list_all is_hex (take n s)"
    by (auto split: list.splits)
  have "s = take n s @ drop n s" by simp
  with r have "s = take n s @ ''-'' @ r" by simp
  with g m show ?thesis by blast
qed

lemma is_uuid_decomp:
  assumes "is_uuid u"
  shows "\<exists>g1 g2 g3 g4 g5. u = g1 @ ''-'' @ g2 @ ''-'' @ g3 @ ''-'' @ g4 @ ''-'' @ g5
           \<and> length g1 = 8 \<and> length g2 = 4 \<and> length g3 = 4 \<and> length g4 = 4 \<and> length g5 = 12
           \<and> list_all is_hex g1 \<and> list_all is_hex g2 \<and> list_all is_hex g3
           \<and> list_all is_hex g4 \<and> list_all is_hex g5"
proof -
  from assms have m1: "match_hex_groups [8, 4, 4, 4, 12] u" by (simp add: is_uuid_def)
  from match_hex_groups_step [OF m1] obtain g1 r1 where
    1: "u = g1 @ ''-'' @ r1" "length g1 = 8" "list_all is_hex g1" "match_hex_groups [4, 4, 4, 12] r1"
    by blast
  from match_hex_groups_step [OF 1(4)] obtain g2 r2 where
    2: "r1 = g2 @ ''-'' @ r2" "length g2 = 4" "list_all is_hex g2" "match_hex_groups [4, 4, 12] r2"
    by blast
  from match_hex_groups_step [OF 2(4)] obtain g3 r3 where
    3: "r2 = g3 @ ''-'' @ r3" "length g3 = 4" "list_all is_hex g3" "match_hex_groups [4, 12] r3"
    by blast
  from match_hex_groups_step [OF 3(4)] obtain g4 r4 where
    4: "r3 = g4 @ ''-'' @ r4" "length g4 = 4" "list_all is_hex g4" "match_hex_groups [12] r4"
    by blast
  from 4(4) have 5: "length r4 = 12" "list_all is_hex r4" by simp_all
  from 1 2 3 4 5 show ?thesis by blast
qed

lemma is_uuid_length: "is_uuid u \<Longrightarrow> length u = 36"
  by (drule is_uuid_decomp) auto

lemma is_uuid_dash: "is_uuid u \<Longrightarrow> u ! 8 = CHR ''-''"
  by (drule is_uuid_decomp) (auto simp: nth_append)

lemma is_hex32_take: "is_hex32 h \<Longrightarrow> take 32 h = h \<and> h \<noteq> []"
  by (auto simp: is_hex32_def)

lemma search_hex32_self: "is_hex32 h \<Longrightarrow> search_hex32 h = Some h"
  by (cases h) (auto simp: is_hex32_def)

lemma search_hex32_end_self: "is_hex32 h \<Longrightarrow> search_hex32_end h = Some h"
  by (cases h) (auto simp: is_hex32_def)

lemma search_uuid_self: "is_uuid u \<Longrightarrow> search_uuid u = Some u"
  by (frule is_uuid_length, cases u) auto

lemma is_uuid_has_dash: "is_uuid u \<Longrightarrow> CHR ''-'' \<in> set u"
  by (drule is_uuid_decomp) auto

lemma is_hex32_no_dash: "is_hex32 h \<Longrightarrow> c \<in> set h \<Longrightarrow> is_hex c"
  by (auto simp: is_hex32_def list_all_iff)

lemma search_uuid_hex32: "is_hex32 h \<Longrightarrow> search_uuid h = None"
proof (rule ccontr)
  assume h: "is_hex32 h" and "search_uuid h \<noteq> None"
  then obtain u where "search_uuid h = Some u" by auto
  from search_uuid_Some [OF this] obtain a b where "is_uuid u" "h = a @ u @ b" by blast
  with is_uuid_has_dash [of u] have "CHR ''-'' \<in> set h" by auto
  with is_hex32_no_dash [OF h] not_hex_simps(1) show False by blast
qed

lemma hex32_in_uuid_False:
  assumes u: "is_uuid u" and h: "is_hex32 h" and eq: "u = a @ h @ b"
  shows False
proof -
  from is_uuid_length [OF u] h eq have "length a \<le> 4" by (simp add: is_hex32_def)
  then have "u ! 8 = h ! (8 - length a)" and "8 - length a < length h"
    using h eq by (auto simp: nth_append is_hex32_def)
  with is_uuid_dash [OF u] have "CHR ''-'' \<in> set h" by (metis nth_mem)
  with is_hex32_no_dash [OF h] not_hex_simps(1) show False by blast
qed

lemma search_hex32_uuid: "is_uuid u \<Longrightarrow> search_hex32 u = None"
proof (rule ccontr)
  assume u: "is_uuid u" and "search_hex32 u \<noteq> None"
  then obtain h where "search_hex32 u = Some h" by auto
  from search_hex32_Some [OF this] obtain a b where "is_hex32 h" "u = a @ h @ b" by blast
  with hex32_in_uuid_False [OF u] show False by blast
qed

lemma search_hex32_end_uuid: "is_uuid u \<Longrightarrow> search_hex32_end u = None"
proof (rule ccontr)
  assume u: "is_uuid u" and "search_hex32_end u \<noteq> None"
  then obtain h where "search_hex32_end u = Some h" by auto
  from search_hex32_end_Some [OF this] obtain a b where "is_hex32 h" "u = a @ h @ b" by blast
  with hex32_in_uuid_False [OF u] show False by blast
qed

lemma uuid_chars: "is_uuid u \<Longrightarrow> c \<in> set u \<Longrightarrow> is_hex c \<or> c = CHR ''-''"
  by (drule is_uuid_decomp) (auto simp: list_all_iff)

lemma uuid_no_sep: "is_uuid u \<Longrightarrow> CHR ''/'' \<notin> set u \<and> CHR ''?'' \<notin> set u"
  using uuid_chars [of u "CHR ''/''"] uuid_chars [of u "CHR ''?''"] not_hex_simps by auto

lemma hex32_no_sep: "is_hex32 h \<Longrightarrow> CHR ''/'' \<notin> set h \<and> CHR ''?'' \<notin> set h"
  using is_hex32_no_dash [of h "CHR ''/''"] is_hex32_no_dash [of h "CHR ''?''"] not_hex_simps
  by blast

lemma normalize_page_id_hex32:
  "is_hex32 h \<Longrightarrow> normalize_page_id g h = Inr (hyphenate (lower h))"
  by (simp add: normalize_page_id_def normalized_result_def search_hex32_self search_uuid_hex32)

lemma normalize_id_hex32: "is_hex32 h \<Longrightarrow> normalize_id h = hyphenate (lower h)"
  by (simp add: normalize_id_def url_tail_def hex32_no_sep search_hex32_end_self)

lemma normalize_page_id_uuid: "is_uuid u \<Longrightarrow> normalize_page_id g u = Inr (lower u)"
  by (simp add: normalize_page_id_def normalized_result_def search_hex32_uuid search_uuid_self)

lemma normalize_id_uuid: "is_uuid u \<Longrightarrow> normalize_id u = lower u"
  by (simp add: normalize_id_def url_tail_def uuid_no_sep search_hex32_end_uuid search_uuid_self)

lemma filter_hex: "list_all is_hex g \<Longrightarrow> filter (\<lambda>c. c \<noteq> CHR ''-'') g = g"
  by (induction g) auto

lemma uuid_hyphenate:
  assumes u: "is_uuid u"
  shows "hyphenate (lower (filter (\<lambda>c. c \<noteq> CHR ''-'') u)) = lower u"
proof -
  from is_uuid_decomp [OF u] obtain g1 g2 g3 g4 g5 where
    eq: "u = g1 @ ''-'' @ g2 @ ''-'' @ g3 @ ''-'' @ g4 @ ''-'' @ g5"
    and len: "length g1 = 8" "length g2 = 4" "length g3 = 4" "length g4 = 4" "length g5 = 12"
    and hex: "list_all is_hex g1" "list_all is_hex g2" "list_all is_hex g3"
      "list_all is_hex g4" "list_all is_hex g5"
    by blast
  have "filter (\<lambda>c. c \<noteq> CHR ''-'') u = g1 @ g2 @ g3 @ g4 @ g5"
    unfolding eq using hex by (simp add: filter_hex)
  then show ?thesis
    unfolding eq using len by (simp add: hyphenate_def)
qed


lemma search_hex32_url:
  "search_hex32 p = None \<Longrightarrow> p = [] \<or> \<not> is_hex (last p) \<Longrightarrow> is_hex32 h \<Longrightarrow>
     search_hex32 (p @ h @ q) = Some h"
proof (induction p)
  case Nil
  then show ?case by (cases h) (auto simp: is_hex32_def)
next
  case (Cons c p')
  from Cons.prems(1) have no: "\<not> is_hex32 (take 32 (c # p'))" and rest: "search_hex32 p' = None"
    by (auto split: if_splits)
  from Cons.prems(2) have bad: "\<not> is_hex (last (c # p'))" by simp
  define xs where "xs = c # p'"
  have xs: "xs \<noteq> []" "\<not> is_hex32 (take 32 xs)" "\<not> is_hex (last xs)"
    using no bad by (simp_all add: xs_def)
  have "\<not> is_hex32 (take 32 (xs @ h @ q))"
  proof (cases "32 \<le> length xs")
    case True
    then have e: "take 32 (xs @ h @ q) = take 32 xs" by simp
    show ?thesis unfolding e by (rule xs(2))
  next
    case False
    then have "take 32 (xs @ h @ q) = xs @ take (32 - length xs) (h @ q)"
      by simp
    moreover have "last xs \<in> set xs" using xs by simp
    ultimately have "last xs \<in> set (take 32 (xs @ h @ q))" by simp
    with xs show ?thesis by (auto simp: is_hex32_def list_all_iff)
  qed
  then have "\<not> is_hex32 (take 32 (c # p' @ h @ q))" by (simp add: xs_def)
  moreover from bad have "p' = [] \<or> \<not> is_hex (last p')" by (cases p') auto
  ultimately show ?case using Cons.IH [OF rest _ Cons.prems(3)] by simp
qed

lemma search_hex32_end_url: "is_hex32 h \<Longrightarrow> search_hex32_end (n @ h) = Some h"
proof (induction n)
  case Nil
  then show ?case by (simp add: search_hex32_end_self)
next
  case (Cons c n')
  have len: "length h = 32" and hex: "list_all is_hex h"
    using Cons.prems by (simp_all add: is_hex32_def)
  define xs where "xs = c # n' @ h"
  have lx: "length xs = 33 + length n'" using len by (simp add: xs_def)
  define ys where "ys = drop 32 xs"
  have ly: "length ys = Suc (length n')" using lx by (simp add: ys_def)
  have split: "xs = take 32 xs @ ys" by (simp add: ys_def)
  have "\<not> (ys = [] \<or> ys = [CHR 0x0A])"
  proof
    assume a: "ys = [] \<or> ys = [CHR 0x0A]"
    with ly have d: "ys = [CHR 0x0A]" by auto
    from split d have "last xs = CHR 0x0A" by (metis last_snoc)
    moreover from len have hne: "h \<noteq> []" by auto
    then have "last xs = last h" unfolding xs_def by (metis append_Cons last_appendR)
    moreover note hne
    ultimately have "CHR 0x0A \<in> set h" by (metis last_in_set)
    with hex not_hex_simps(4) show False by (auto simp: list_all_iff)
  qed
  then have cond: "\<not> (is_hex32 (take 32 (c # n' @ h)) \<and>
      (drop 32 (c # n' @ h) = [] \<or> drop 32 (c # n' @ h) = [CHR 0x0A]))"
    unfolding ys_def xs_def by blast
  have "search_hex32_end (c # n' @ h) = search_hex32_end (n' @ h)"
    by (subst search_hex32_end.simps) (simp only: cond if_False)
  with Cons.IH [OF Cons.prems] show ?case by simp
qed

lemma takeWhile_neq_append:
  "c \<notin> set xs \<Longrightarrow> takeWhile (\<lambda>x. x \<noteq> c) (xs @ ys) = xs @ takeWhile (\<lambda>x. x \<noteq> c) ys"
  by (induction xs) auto

lemma takeWhile_neq_all: "c \<notin> set xs \<Longrightarrow> takeWhile (\<lambda>x. x \<noteq> c) xs = xs"
  by (induction xs) auto

lemma last_part_append: "c \<notin> set r \<Longrightarrow> last_part c (p @ r) = last_part c p @ r"
  by (simp add: last_part_def takeWhile_neq_append)

lemma last_part_none: "c \<notin> set s \<Longrightarrow> last_part c s = s"
  by (simp add: last_part_def takeWhile_neq_all)

lemma first_part_none: "c \<notin> set s \<Longrightarrow> first_part c s = s"
  by (simp add: first_part_def takeWhile_neq_all)

lemma first_part_append: "c \<notin> set n \<Longrightarrow> q = [] \<or> hd q = c \<Longrightarrow> first_part c (n @ q) = n"
  by (cases q) (auto simp: first_part_def takeWhile_neq_append takeWhile_neq_all)

lemma url_tail_eq: "url_tail s = first_part CHR ''?'' (last_part CHR ''/'' s)"
  by (auto simp: url_tail_def Let_def last_part_none first_part_none)

lemma url_tail_url:
  assumes "is_hex32 h" "CHR ''?'' \<notin> set (last_part CHR ''/'' p)" "CHR ''/'' \<notin> set q"
    "q = [] \<or> hd q = CHR ''?''"
  shows "url_tail (p @ h @ q) = last_part CHR ''/'' p @ h"
proof -
  from hex32_no_sep [OF assms(1)] assms(3) have "CHR ''/'' \<notin> set (h @ q)" by simp
  then have "last_part CHR ''/'' (p @ h @ q) = (last_part CHR ''/'' p @ h) @ q"
    using last_part_append [of "CHR ''/''" "h @ q" p] by simp
  moreover from hex32_no_sep [OF assms(1)] assms(2)
  have "CHR ''?'' \<notin> set (last_part CHR ''/'' p @ h)" by simp
  ultimately show ?thesis
    using first_part_append [OF _ assms(4), of "last_part CHR ''/'' p @ h"]
    by (simp add: url_tail_eq)
qed

lemma is_hex_lower_all: "\<forall>c \<in> set ''0123456789abcdefABCDEF''. is_hex (lower_char c)"
  by (simp add: is_hex_def lower_char_def)

lemma is_hex_lower: "is_hex c \<Longrightarrow> is_hex (lower_char c)"
  using is_hex_lower_all unfolding is_hex_def [of c] by blast

lemma lower_char_fixed: "\<forall>d \<in> set ''abcdefghijklmnopqrstuvwxyz''. lower_char d = d"
  by (simp add: lower_char_def)

lemma lower_char_idem: "lower_char (lower_char c) = lower_char c"
proof (cases "map_of (zip ''ABCDEFGHIJKLMNOPQRSTUVWXYZ'' ''abcdefghijklmnopqrstuvwxyz'') c")
  case None
  then have "lower_char c = c" by (simp only: lower_char_def option.case)
  then show ?thesis by simp
next
  case (Some d)
  then have d: "lower_char c = d" by (simp only: lower_char_def option.case)
  from Some have "(c, d) \<in> set (zip ''ABCDEFGHIJKLMNOPQRSTUVWXYZ'' ''abcdefghijklmnopqrstuvwxyz'')"
    by (rule map_of_SomeD)
  then have "d \<in> set ''abcdefghijklmnopqrstuvwxyz''" by (rule set_zip_rightD)
  with lower_char_fixed have "lower_char d = d" by blast
  with d show ?thesis by simp
qed

lemma is_uuid_hyphenate:
  assumes "is_hex32 h"
  shows "is_uuid (hyphenate (lower h)) \<and> lower (hyphenate (lower h)) = hyphenate (lower h)"
proof -
  from assms have len: "length (lower h) = 32" and hex: "list_all is_hex (lower h)"
    by (auto simp: is_hex32_def lower_def list_all_iff is_hex_lower)
  have idem: "lower (lower h) = lower h"
    by (simp add: lower_def lower_char_idem)
  define x where "x = lower h"
  have hx: "\<And>a b. list_all is_hex (take a (drop b x))" "\<And>b. list_all is_hex (drop b x)"
    "\<And>a. list_all is_hex (take a x)"
    using hex unfolding x_def list_all_iff by (auto dest: in_set_takeD in_set_dropD)
  have "is_uuid (hyphenate x)"
    using len hx unfolding x_def [symmetric] by (simp add: is_uuid_def hyphenate_def min_def)
  moreover have "lower (hyphenate x) = hyphenate (lower x)"
    by (simp add: hyphenate_def lower_def take_map drop_map)
  ultimately show ?thesis using idem unfolding x_def by simp
qed

text \<open>
  C3 (as amended): a raw 32-hex string and a hyphenated UUID are normalized by both
  operations to the same lowercase 8-4-4-4-12 form, so two spellings with equal hex digits
  give equal results. For a URL the two agree when the 32 hex digits end its last path
  segment (after an optional page name, before an optional \<open>?\<close> query that has no
  \<open>/\<close>) and the URL holds no other 32-hex run or hyphenated UUID; the importer reads only
  that segment.
\<close>

theorem normalize_agree:
  "(is_hex32 h \<longrightarrow>
      normalize_page_id g h = Inr (hyphenate (lower h)) \<and> normalize_id h = hyphenate (lower h)
      \<and> is_uuid (hyphenate (lower h)) \<and> lower (hyphenate (lower h)) = hyphenate (lower h))
   \<and> (is_uuid u \<longrightarrow>
      normalize_page_id g u = Inr (lower u) \<and> normalize_id u = lower u
      \<and> lower u = hyphenate (lower (filter (\<lambda>c. c \<noteq> CHR ''-'') u)))
   \<and> (is_hex32 h \<and> search_hex32 p = None \<and> (p = [] \<or> \<not> is_hex (last p))
        \<and> search_uuid (p @ h @ q) = None
        \<and> CHR ''?'' \<notin> set (last_part CHR ''/'' p) \<and> CHR ''/'' \<notin> set q
        \<and> (q = [] \<or> hd q = CHR ''?'') \<longrightarrow>
      normalize_page_id g (p @ h @ q) = Inr (hyphenate (lower h))
      \<and> normalize_id (p @ h @ q) = hyphenate (lower h))"
proof (intro conjI impI)
  assume "is_hex32 h"
  then show "normalize_page_id g h = Inr (hyphenate (lower h))"
    and "normalize_id h = hyphenate (lower h)"
    and "is_uuid (hyphenate (lower h))"
    and "lower (hyphenate (lower h)) = hyphenate (lower h)"
    by (simp_all add: normalize_page_id_hex32 normalize_id_hex32 is_uuid_hyphenate)
next
  assume "is_uuid u"
  then show "normalize_page_id g u = Inr (lower u)" and "normalize_id u = lower u"
    and "lower u = hyphenate (lower (filter (\<lambda>c. c \<noteq> CHR ''-'') u))"
    by (simp_all add: normalize_page_id_uuid normalize_id_uuid uuid_hyphenate)
next
  assume a: "is_hex32 h \<and> search_hex32 p = None \<and> (p = [] \<or> \<not> is_hex (last p))
        \<and> search_uuid (p @ h @ q) = None
        \<and> CHR ''?'' \<notin> set (last_part CHR ''/'' p) \<and> CHR ''/'' \<notin> set q
        \<and> (q = [] \<or> hd q = CHR ''?'')"
  then have m: "search_hex32 (p @ h @ q) = Some h"
    by (simp add: search_hex32_url)
  with a show "normalize_page_id g (p @ h @ q) = Inr (hyphenate (lower h))"
    by (simp add: normalize_page_id_def normalized_result_def)
  from a have "url_tail (p @ h @ q) = last_part CHR ''/'' p @ h"
    by (simp add: url_tail_url)
  with a show "normalize_id (p @ h @ q) = hyphenate (lower h)"
    by (simp add: normalize_id_def search_hex32_end_url)
qed

theorem normalize_agree_witness:
  "normalize_page_id (\<lambda>u. Inl RequestException) ''1a2b3c4d5e6f78901a2b3c4d5e6f7890''
     = Inr ''1a2b3c4d-5e6f-7890-1a2b-3c4d5e6f7890''
   \<and> normalize_id ''1a2b3c4d5e6f78901a2b3c4d5e6f7890'' = ''1a2b3c4d-5e6f-7890-1a2b-3c4d5e6f7890''
   \<and> normalize_page_id (\<lambda>u. Inl RequestException) ''1A2B3C4D-5E6F-7890-1A2B-3C4D5E6F7890''
     = Inr ''1a2b3c4d-5e6f-7890-1a2b-3c4d5e6f7890''
   \<and> normalize_id ''1A2B3C4D-5E6F-7890-1A2B-3C4D5E6F7890'' = ''1a2b3c4d-5e6f-7890-1a2b-3c4d5e6f7890''
   \<and> normalize_page_id (\<lambda>u. Inl RequestException)
       (''https://www.notion.so/My-Page-'' @ ''1a2b3c4d5e6f78901a2b3c4d5e6f7890'' @ ''?pvs=4'')
     = Inr ''1a2b3c4d-5e6f-7890-1a2b-3c4d5e6f7890''
   \<and> normalize_id
       (''https://www.notion.so/My-Page-'' @ ''1a2b3c4d5e6f78901a2b3c4d5e6f7890'' @ ''?pvs=4'')
     = ''1a2b3c4d-5e6f-7890-1a2b-3c4d5e6f7890''"
proof -
  have h: "is_hex32 ''1a2b3c4d5e6f78901a2b3c4d5e6f7890''"
    by (simp add: is_hex32_def is_hex_def)
  have u: "is_uuid ''1A2B3C4D-5E6F-7890-1A2B-3C4D5E6F7890''"
    by (simp add: is_uuid_def is_hex_def)
  have p: "search_hex32 ''https://www.notion.so/My-Page-'' = None"
    by (simp add: is_hex32_def)
  have l: "\<not> is_hex (last ''https://www.notion.so/My-Page-'')"
    by (simp add: is_hex_def)
  have s: "search_uuid
      (''https://www.notion.so/My-Page-'' @ ''1a2b3c4d5e6f78901a2b3c4d5e6f7890'' @ ''?pvs=4'') = None"
    by (simp add: is_uuid_def is_hex_def)
  have t: "CHR ''?'' \<notin> set (last_part CHR ''/'' ''https://www.notion.so/My-Page-'')"
    by (simp add: last_part_def)
  have lw: "hyphenate (lower ''1a2b3c4d5e6f78901a2b3c4d5e6f7890'')
      = ''1a2b3c4d-5e6f-7890-1a2b-3c4d5e6f7890''"
    by (simp add: hyphenate_def lower_char_def)
  have lu: "lower ''1A2B3C4D-5E6F-7890-1A2B-3C4D5E6F7890'' = ''1a2b3c4d-5e6f-7890-1a2b-3c4d5e6f7890''"
    by (simp add: lower_char_def)
  from normalize_agree [of "''1a2b3c4d5e6f78901a2b3c4d5e6f7890''" "\<lambda>u. Inl RequestException"
      "''1A2B3C4D-5E6F-7890-1A2B-3C4D5E6F7890''" "''https://www.notion.so/My-Page-''" "''?pvs=4''"]
    h u p l s t lw lu
  show ?thesis by simp
qed

text \<open>
  The claim as stated fails: for a URL with a page-name segment after the identifier the
  exporter finds the identifier, the importer returns the trailing segment.
\<close>

theorem normalize_disagree:
  "normalize_page_id (\<lambda>u. Inl RequestException)
       ''https://www.notion.so/1a2b3c4d5e6f78901a2b3c4d5e6f7890/My-Page''
     = Inr ''1a2b3c4d-5e6f-7890-1a2b-3c4d5e6f7890''
   \<and> normalize_id ''https://www.notion.so/1a2b3c4d5e6f78901a2b3c4d5e6f7890/My-Page'' = ''My-Page''"
  by (simp add: normalize_page_id_def normalized_result_def is_hex32_def is_uuid_def is_hex_def
      hyphenate_def lower_char_def normalize_id_def url_tail_def last_part_def first_part_def)

text \<open>
  C10 (as amended): when the input holds no identifier and none can be recovered (it is
  not a URL, or fetching it fails, or the page source holds none), the exporter's
  \<open>_normalize_page_id\<close> raises \<open>ValueError\<close>; the importer's \<open>_normalize_id\<close> raises
  nothing and returns the last path segment of its input, cut at \<open>?\<close>, unchanged.
\<close>

theorem normalize_failure:
  "(search_hex32 s = None \<and> search_uuid s = None \<and>
      (\<not> (prefix ''http://'' s \<or> prefix ''https://'' s)
       \<or> (\<exists>e. http_get s = Inl e)
       \<or> (\<exists>html. http_get s = Inr html \<and> search_page_id html = None
              \<and> search_uuid html = None \<and> search_hex32 html = None)) \<longrightarrow>
      normalize_page_id http_get s = Inl ValueError)
   \<and> (search_hex32_end (url_tail s) = None \<and> search_uuid (url_tail s) = None \<longrightarrow>
      normalize_id s = url_tail s)"
  by (auto simp: normalize_page_id_def normalized_result_def normalize_id_def Let_def)

theorem normalize_failure_witness:
  "normalize_page_id (\<lambda>u. Inl RequestException) ''my-page'' = Inl ValueError
   \<and> normalize_page_id (\<lambda>u. Inr ''<html>no id</html>'') ''https://x.y/z'' = Inl ValueError
   \<and> normalize_id ''https://x.y/z?v=1'' = ''z''"
proof -
  have a: "search_hex32 ''my-page'' = None" "search_uuid ''my-page'' = None"
    "\<not> (prefix ''http://'' ''my-page'' \<or> prefix ''https://'' ''my-page'')"
    by (simp_all add: is_hex32_def is_uuid_def)
  have b: "search_hex32 ''https://x.y/z'' = None" "search_uuid ''https://x.y/z'' = None"
    "search_page_id ''<html>no id</html>'' = None" "search_uuid ''<html>no id</html>'' = None"
    "search_hex32 ''<html>no id</html>'' = None"
    by (simp_all add: is_hex32_def is_uuid_def match_page_id_def)
  have c: "url_tail ''https://x.y/z?v=1'' = ''z''"
    by (simp add: url_tail_def last_part_def first_part_def)
  have d: "search_hex32_end ''z'' = None" "search_uuid ''z'' = None"
    by (simp_all add: is_hex32_def is_uuid_def)
  from normalize_failure [of "''my-page''" "\<lambda>u. Inl RequestException"] a
  have 1: "normalize_page_id (\<lambda>u. Inl RequestException) ''my-page'' = Inl ValueError" by blast
  from normalize_failure [of "''https://x.y/z''" "\<lambda>u. Inr ''<html>no id</html>''"] b
  have 2: "normalize_page_id (\<lambda>u. Inr ''<html>no id</html>'') ''https://x.y/z'' = Inl ValueError"
    by blast
  from normalize_failure [of "''https://x.y/z?v=1''" "\<lambda>u. Inl RequestException"] c d
  have 3: "normalize_id ''https://x.y/z?v=1'' = ''z''" by simp
  from 1 2 3 show ?thesis by blast
qed

text \<open>
  The claim as stated fails for the importer: an input with no identifier comes back as
  it is.
\<close>

theorem normalize_id_returns_input:
  "search_hex32 ''my-page'' = None \<and> search_uuid ''my-page'' = None
   \<and> normalize_id ''my-page'' = ''my-page''"
  by (simp add: normalize_id_def url_tail_def is_hex32_def is_uuid_def)

subsection \<open>The encoder, one call at a time\<close>

lemma and_then_simps:
  "and_then (Inl e) second = Inl e"
  "and_then (Inr a) (Inl e) = Inl e"
  "and_then (Inr a) (Inr b) = Inr (a @ b)"
  by (simp_all add: and_then_def)

lemma parse_empty: "parse_rich_text_recursive (Suc d) [] ann = Inr []"
  by (simp add: parse_rich_text_recursive.simps)

subsection \<open>Rich text: render, then parse\<close>

lemma split_on_fresh:
  "d \<noteq> [] \<Longrightarrow> hd d \<notin> set a \<Longrightarrow> split_on d (a @ d @ b) = Some (a, b)"
proof (induction a)
  case Nil
  then show ?case by (cases d) auto
next
  case (Cons c a)
  from Cons.prems obtain d0 d' where d: "d = d0 # d'" by (cases d) auto
  with Cons.prems have "c \<noteq> d0" by auto
  with d have "\<not> prefix d (c # a @ d @ b)" by auto
  moreover from Cons have "split_on d (a @ d @ b) = Some (a, b)" by auto
  ultimately show ?case by simp
qed

lemma delimited_ne_fresh:
  assumes "x \<noteq> []" "cls \<noteq> []" "hd cls \<notin> set x"
  shows "delimited_ne opn cls (opn @ x @ cls @ rest) = Some (x, rest)"
proof -
  from assms(1) obtain c x' where x: "x = c # x'" by (cases x) auto
  with assms have "split_on cls (x' @ cls @ rest) = Some (x', rest)"
    by (intro split_on_fresh) auto
  with x show ?thesis by (simp add: delimited_ne_def)
qed

lemma not_special_chars:
  "\<not> is_special c \<Longrightarrow> c \<noteq> CHR ''<'' \<and> c \<noteq> CHR ''*'' \<and> c \<noteq> CHR ''~'' \<and> c \<noteq> CHR 0x60 \<and> c \<noteq> CHR ''[''"
  by (auto simp: is_special_def)

lemma no_match_plain:
  assumes "\<not> is_special c"
  shows "color_match (c # r) = None" "bg_match (c # r) = None" "underline_match (c # r) = None"
    "bold_italic_match (c # r) = None" "bold_match (c # r) = None" "italic_match (c # r) = None"
    "strike_match (c # r) = None" "code_match (c # r) = None" "link_match (c # r) = None"
  using not_special_chars [OF assms]
  by (auto simp: color_match_def bg_match_def span_match_def underline_match_def delimited_def
      bold_italic_match_def bold_match_def italic_match_def strike_match_def delimited_ne_def
      code_match_def link_match_def)

lemma next_special_plain: "list_all (\<lambda>c. \<not> is_special c) t \<Longrightarrow> next_special t = length t"
  by (simp add: next_special_def list_all_iff takeWhile_eq_all_conv [THEN iffD2])

lemma dispatch_plain:
  assumes "t \<noteq> []" "list_all (\<lambda>c. \<not> is_special c) t"
  shows "dispatch t ann = Plain t []"
proof -
  from assms obtain c r where t: "t = c # r" and c: "\<not> is_special c" by (cases t) auto
  from next_special_plain [OF assms(2)] assms(1) have "next_special t = length t" "0 < length t"
    by auto
  then show ?thesis
    unfolding dispatch_def t by (simp add: no_match_plain [OF c])
qed

lemma parse_plain:
  assumes "t \<noteq> []" "list_all (\<lambda>c. \<not> is_special c) t"
  shows "parse_rich_text_recursive (Suc (Suc d)) t ann = Inr [plain_segment t ann]"
  using assms(1) dispatch_plain [OF assms]
  by (simp add: parse_rich_text_recursive.simps(2) [of _ t] parse_empty and_then_simps)

lemma takeWhile_until: "c \<notin> set t \<Longrightarrow> takeWhile (\<lambda>x. x \<noteq> c) (t @ c # r) = t"
  by (induction t) auto

lemma dropWhile_until: "c \<notin> set t \<Longrightarrow> dropWhile (\<lambda>x. x \<noteq> c) (t @ c # r) = c # r"
  by (induction t) auto

lemma dispatch_code:
  assumes "t \<noteq> []" "CHR 0x60 \<notin> set t"
  shows "dispatch (CHR 0x60 # t @ CHR 0x60 # rest) ann = Format t (ann\<lparr>code := True\<rparr>) rest"
proof -
  have "code_match (CHR 0x60 # t @ CHR 0x60 # rest) = Some (t, rest)"
    using assms by (simp add: code_match_def takeWhile_until dropWhile_until)
  then show ?thesis
    by (simp add: dispatch_def color_match_def bg_match_def span_match_def underline_match_def
        delimited_def bold_italic_match_def bold_match_def italic_match_def strike_match_def
        delimited_ne_def)
qed

lemma dispatch_bold_italic:
  assumes "x \<noteq> []" "CHR ''*'' \<notin> set x"
  shows "dispatch (''***'' @ x @ ''***'' @ rest) ann
           = Format x (ann\<lparr>bold := True, italic := True\<rparr>) rest"
proof -
  have "bold_italic_match (''***'' @ x @ ''***'' @ rest) = Some (x, rest)"
    unfolding bold_italic_match_def using assms by (intro delimited_ne_fresh) auto
  then show ?thesis
    by (simp add: dispatch_def color_match_def bg_match_def span_match_def underline_match_def
        delimited_def)
qed

lemma dispatch_bold:
  assumes "x \<noteq> []" "CHR ''*'' \<notin> set x"
  shows "dispatch (''**'' @ x @ ''**'' @ rest) ann = Format x (ann\<lparr>bold := True\<rparr>) rest"
proof -
  from assms obtain c x' where x: "x = c # x'" and c: "c \<noteq> CHR ''*''" by (cases x) auto
  have "bold_match (''**'' @ x @ ''**'' @ rest) = Some (x, rest)"
    unfolding bold_match_def using assms by (intro delimited_ne_fresh) auto
  moreover have "bold_italic_match (''**'' @ x @ ''**'' @ rest) = None"
    using c by (auto simp: bold_italic_match_def delimited_ne_def x)
  ultimately show ?thesis
    by (simp add: dispatch_def color_match_def bg_match_def span_match_def underline_match_def
        delimited_def)
qed

lemma dispatch_italic:
  assumes "x \<noteq> []" "CHR ''*'' \<notin> set x"
  shows "dispatch (''*'' @ x @ ''*'' @ rest) ann = Format x (ann\<lparr>italic := True\<rparr>) rest"
proof -
  from assms obtain c x' where x: "x = c # x'" and c: "c \<noteq> CHR ''*''" by (cases x) auto
  have "italic_match (''*'' @ x @ ''*'' @ rest) = Some (x, rest)"
    unfolding italic_match_def using assms by (intro delimited_ne_fresh) auto
  moreover have "bold_italic_match (''*'' @ x @ ''*'' @ rest) = None"
    using c by (auto simp: bold_italic_match_def delimited_ne_def x)
  moreover have "bold_match (''*'' @ x @ ''*'' @ rest) = None"
    using c by (auto simp: bold_match_def delimited_ne_def x)
  ultimately show ?thesis
    by (simp add: dispatch_def color_match_def bg_match_def span_match_def underline_match_def
        delimited_def)
qed

lemma span_match_fresh:
  assumes "CHR 0x22 \<notin> set css" "CHR ''<'' \<notin> set y"
  shows "span_match opn (opn @ '' '' @ css @ ''\">'' @ y @ ''</span>'' @ rest)
           = Some (strip ('' '' @ css), y, rest)"
proof -
  define r where "r = '' '' @ css @ ''\">'' @ y @ ''</span>'' @ rest"
  from assms(1) have q: "CHR 0x22 \<notin> set ('' '' @ css)" by simp
  have tw: "takeWhile (\<lambda>c. c \<noteq> CHR 0x22) r = '' '' @ css"
    using takeWhile_until [OF q, of "''>'' @ y @ ''</span>'' @ rest"] by (simp add: r_def)
  have dw: "dropWhile (\<lambda>c. c \<noteq> CHR 0x22) r = ''\">'' @ y @ ''</span>'' @ rest"
    using dropWhile_until [OF q, of "''>'' @ y @ ''</span>'' @ rest"] by (simp add: r_def)
  have sp: "split_on ''</span>'' (y @ ''</span>'' @ rest) = Some (y, rest)"
    using assms(2) by (intro split_on_fresh) auto
  have "span_match opn (opn @ r) = Some (strip ('' '' @ css), y, rest)"
    unfolding span_match_def Let_def using sp by (simp add: tw dw)
  then show ?thesis by (simp only: r_def)
qed

lemma color_table:
  "list_all (\<lambda>(name, css). notion_color (strip ('' '' @ css)) = name \<and> CHR 0x22 \<notin> set css
      \<and> css \<noteq> [] \<and> map_of COLOR_MAP name = Some css \<and> name \<noteq> [] \<and> name \<noteq> ''default'')
     COLOR_MAP"
  by code_simp

lemma color_table_entry:
  assumes "name \<in> set (map fst COLOR_MAP)"
  obtains css where "map_of COLOR_MAP name = Some css" "css \<noteq> []" "CHR 0x22 \<notin> set css"
    "notion_color (strip ('' '' @ css)) = name" "name \<noteq> []" "name \<noteq> ''default''"
proof -
  from assms obtain css where "(name, css) \<in> set COLOR_MAP" by auto
  with color_table show ?thesis
    by (intro that [of css]) (auto simp: list_all_iff)
qed

lemma parse_Format:
  "s \<noteq> [] \<Longrightarrow> dispatch s ann = Format inner ann' remaining \<Longrightarrow>
     parse_rich_text_recursive (Suc d) s ann
       = and_then (parse_rich_text_recursive d inner ann')
                  (parse_rich_text_recursive d remaining ann)"
  by (simp add: parse_rich_text_recursive.simps(2))

lemma parse_code_rest:
  assumes "t \<noteq> []" "list_all (\<lambda>c. \<not> is_special c) t"
  shows "parse_rich_text_recursive (Suc (Suc (Suc d))) ([CHR 0x60] @ t @ [CHR 0x60] @ rest) ann
           = and_then (Inr [plain_segment t (ann\<lparr>code := True\<rparr>)])
                      (parse_rich_text_recursive (Suc (Suc d)) rest ann)"
proof -
  from assms(2) have "CHR 0x60 \<notin> set t" by (auto simp: list_all_iff is_special_def)
  from dispatch_code [OF assms(1) this, of rest ann] parse_plain [OF assms]
  show ?thesis by (simp add: parse_Format)
qed

lemma core_props:
  assumes "t \<noteq> []" "list_all (\<lambda>c. \<not> is_special c) t"
  shows "core c t \<noteq> []" "CHR ''*'' \<notin> set (core c t)" "CHR ''<'' \<notin> set (core c t)"
  using assms by (auto simp: core_def list_all_iff is_special_def)

lemma parse_core:
  assumes "t \<noteq> []" "list_all (\<lambda>c. \<not> is_special c) t"
  shows "parse_rich_text_recursive (Suc (Suc (Suc d))) (core c t) ann
           = Inr [plain_segment t (if c then ann\<lparr>code := True\<rparr> else ann)]"
  using parse_code_rest [OF assms, of d "[]" ann] parse_plain [OF assms, of "Suc d" ann]
  by (simp add: core_def parse_empty and_then_simps)

lemma parse_bold_italic:
  assumes "x \<noteq> []" "CHR ''*'' \<notin> set x"
  shows "parse_rich_text_recursive (Suc d) (''***'' @ x @ ''***'' @ rest) ann
           = and_then (parse_rich_text_recursive d x (ann\<lparr>bold := True, italic := True\<rparr>))
                      (parse_rich_text_recursive d rest ann)"
  by (rule parse_Format [OF _ dispatch_bold_italic [OF assms]]) simp

lemma parse_bold:
  assumes "x \<noteq> []" "CHR ''*'' \<notin> set x"
  shows "parse_rich_text_recursive (Suc d) (''**'' @ x @ ''**'' @ rest) ann
           = and_then (parse_rich_text_recursive d x (ann\<lparr>bold := True\<rparr>))
                      (parse_rich_text_recursive d rest ann)"
  by (rule parse_Format [OF _ dispatch_bold [OF assms]]) simp

lemma parse_italic:
  assumes "x \<noteq> []" "CHR ''*'' \<notin> set x"
  shows "parse_rich_text_recursive (Suc d) (''*'' @ x @ ''*'' @ rest) ann
           = and_then (parse_rich_text_recursive d x (ann\<lparr>italic := True\<rparr>))
                      (parse_rich_text_recursive d rest ann)"
  by (rule parse_Format [OF _ dispatch_italic [OF assms]]) simp

lemma merge_flags_simps:
  "ann\<lparr>bold := True, italic := True\<rparr>\<lparr>code := True\<rparr> = merge_flags True True True ann"
  "ann\<lparr>bold := True, italic := True\<rparr> = merge_flags True True False ann"
  "ann\<lparr>bold := True\<rparr>\<lparr>code := True\<rparr> = merge_flags True False True ann"
  "ann\<lparr>bold := True\<rparr> = merge_flags True False False ann"
  "ann\<lparr>italic := True\<rparr>\<lparr>code := True\<rparr> = merge_flags False True True ann"
  "ann\<lparr>italic := True\<rparr> = merge_flags False True False ann"
  "ann\<lparr>code := True\<rparr> = merge_flags False False True ann"
  "ann = merge_flags False False False ann"
  by (cases ann; simp add: merge_flags_def)+

lemma parse_emphasized_rest:
  assumes "t \<noteq> []" "list_all (\<lambda>c. \<not> is_special c) t" "b \<or> i \<or> c"
  shows "parse_rich_text_recursive (Suc (Suc (Suc (Suc d)))) (emphasized b i (core c t) @ rest) ann
           = and_then (Inr [plain_segment t (merge_flags b i c ann)])
                      (parse_rich_text_recursive (Suc (Suc (Suc d))) rest ann)"
proof -
  note cp = core_props [OF assms(1,2), of c]
  show ?thesis
  proof (cases "b \<or> i")
    case True
    then show ?thesis
      using parse_bold_italic [OF cp(1,2), of "Suc (Suc (Suc d))" rest ann]
        parse_bold [OF cp(1,2), of "Suc (Suc (Suc d))" rest ann]
        parse_italic [OF cp(1,2), of "Suc (Suc (Suc d))" rest ann]
      by (cases b; cases i; cases c)
        (simp_all add: emphasized_def parse_core [OF assms(1,2)] merge_flags_simps [symmetric])
  next
    case False
    with assms(3) have c by simp
    with False show ?thesis
      using parse_code_rest [OF assms(1,2), of "Suc d" rest ann]
      by (simp add: emphasized_def core_def merge_flags_simps [symmetric])
  qed
qed

lemma parse_emphasized:
  assumes "t \<noteq> []" "list_all (\<lambda>c. \<not> is_special c) t"
  shows "parse_rich_text_recursive (Suc (Suc (Suc (Suc d)))) (emphasized b i (core c t)) ann
           = Inr [plain_segment t (merge_flags b i c ann)]"
proof (cases "b \<or> i \<or> c")
  case True
  from parse_emphasized_rest [OF assms True, of d "[]" ann] show ?thesis
    by (simp add: parse_empty and_then_simps)
next
  case False
  then show ?thesis
    using parse_plain [OF assms, of "Suc (Suc d)" ann]
    by (simp add: emphasized_def core_def merge_flags_simps(8) [symmetric])
qed

lemma parse_color:
  assumes "CHR 0x22 \<notin> set css" "notion_color (strip ('' '' @ css)) = name" "CHR ''<'' \<notin> set y"
  shows "parse_rich_text_recursive (Suc d)
           (''<span style=\"color: '' @ css @ ''\">'' @ y @ ''</span>'' @ rest) ann
         = and_then (parse_rich_text_recursive d y (ann\<lparr>color := Some name\<rparr>))
                    (parse_rich_text_recursive d rest ann)"
proof -
  define s where "s = ''<span style=\"color: '' @ css @ ''\">'' @ y @ ''</span>'' @ rest"
  have s: "s = ''<span style=\"color:'' @ '' '' @ css @ ''\">'' @ y @ ''</span>'' @ rest"
    by (simp add: s_def)
  have "color_match s = Some (strip ('' '' @ css), y, rest)"
    unfolding color_match_def s by (rule span_match_fresh [OF assms(1,3)])
  then have "dispatch s ann = Format y (ann\<lparr>color := Some name\<rparr>) rest"
    using assms(2) by (simp add: dispatch_def)
  moreover have "s \<noteq> []" by (simp add: s_def)
  ultimately show ?thesis unfolding s_def [symmetric] by (rule parse_Format [rotated])
qed

lemma parse_bg:
  assumes "CHR 0x22 \<notin> set css" "notion_color (strip ('' '' @ css)) = name" "CHR ''<'' \<notin> set y"
  shows "parse_rich_text_recursive (Suc d)
           (''<span style=\"background-color: '' @ css @ ''\">'' @ y @ ''</span>'' @ rest) ann
         = and_then (parse_rich_text_recursive d y (ann\<lparr>color := Some name\<rparr>))
                    (parse_rich_text_recursive d rest ann)"
proof -
  define s where
    "s = ''<span style=\"background-color: '' @ css @ ''\">'' @ y @ ''</span>'' @ rest"
  have s: "s = ''<span style=\"background-color:'' @ '' '' @ css @ ''\">'' @ y @ ''</span>'' @ rest"
    by (simp add: s_def)
  have "bg_match s = Some (strip ('' '' @ css), y, rest)"
    unfolding bg_match_def s by (rule span_match_fresh [OF assms(1,3)])
  moreover have "color_match s = None"
    by (simp add: color_match_def span_match_def s_def)
  ultimately have "dispatch s ann = Format y (ann\<lparr>color := Some name\<rparr>) rest"
    using assms(2) by (simp add: dispatch_def)
  moreover have "s \<noteq> []" by (simp add: s_def)
  ultimately show ?thesis unfolding s_def [symmetric] by (rule parse_Format [rotated])
qed

lemma fold_flags:
  "list_all roundtrip_ann anns \<Longrightarrow>
     span_text (foldl (apply_ann titles) st anns) = span_text st
     \<and> is_strikethrough (foldl (apply_ann titles) st anns) = is_strikethrough st
     \<and> is_underline (foldl (apply_ann titles) st anns) = is_underline st
     \<and> link_url (foldl (apply_ann titles) st anns) = link_url st
     \<and> is_bold (foldl (apply_ann titles) st anns) = (is_bold st \<or> Ann_b \<in> set anns)
     \<and> is_italic (foldl (apply_ann titles) st anns) = (is_italic st \<or> Ann_i \<in> set anns)
     \<and> is_code (foldl (apply_ann titles) st anns) = (is_code st \<or> Ann_c \<in> set anns)"
proof (induction anns arbitrary: st)
  case Nil
  show ?case by simp
next
  case (Cons a anns)
  from Cons.prems have a: "roundtrip_ann a" and r: "list_all roundtrip_ann anns" by simp_all
  from a Cons.IH [OF r, of "apply_ann titles st a"] show ?case
    by (cases a) auto
qed

lemma fold_color:
  "list_all roundtrip_ann anns \<Longrightarrow>
     highlight_color (foldl (apply_ann titles) st anns)
       = (if highlights anns = [] then highlight_color st else Some (last (highlights anns)))"
proof (induction anns arbitrary: st)
  case Nil
  show ?case by simp
next
  case (Cons a anns)
  from Cons.prems have a: "roundtrip_ann a" and r: "list_all roundtrip_ann anns" by simp_all
  show ?case
  proof (cases a)
    case (Ann_h n)
    with a have "n \<in> set (map fst COLOR_MAP)" by simp
    then obtain css where "n \<noteq> []" "n \<noteq> ''default''" "map_of COLOR_MAP n = Some css"
      by (rule color_table_entry)
    with Ann_h Cons.IH [OF r, of "apply_ann titles st a"] show ?thesis by simp
  qed (use a Cons.IH [OF r, of "apply_ann titles st a"] in auto)
qed

lemma fold_color_table:
  "list_all roundtrip_ann anns \<Longrightarrow> highlight_color (foldl (apply_ann titles) st anns) = Some n \<Longrightarrow>
     highlight_color st = Some n \<or> n \<in> set (map fst COLOR_MAP)"
proof (induction anns arbitrary: st)
  case Nil
  then show ?case by simp
next
  case (Cons a anns)
  from Cons.prems have a: "roundtrip_ann a" and r: "list_all roundtrip_ann anns" by simp_all
  from Cons.prems(2) have "highlight_color (foldl (apply_ann titles) (apply_ann titles st a) anns) = Some n"
    by simp
  from Cons.IH [OF r this] a show ?case
    by (cases a) (auto split: if_splits)
qed

lemma fold_some:
  "list_all roundtrip_ann anns \<Longrightarrow>
     is_bold st \<or> is_italic st \<or> is_code st \<or> highlight_color st \<noteq> None \<or> anns \<noteq> [] \<Longrightarrow>
     is_bold (foldl (apply_ann titles) st anns) \<or> is_italic (foldl (apply_ann titles) st anns)
     \<or> is_code (foldl (apply_ann titles) st anns)
     \<or> highlight_color (foldl (apply_ann titles) st anns) \<noteq> None"
proof (induction anns arbitrary: st)
  case Nil
  then show ?case by simp
next
  case (Cons a anns)
  from Cons.prems have a: "roundtrip_ann a" and r: "list_all roundtrip_ann anns" by simp_all
  have "is_bold (apply_ann titles st a) \<or> is_italic (apply_ann titles st a)
      \<or> is_code (apply_ann titles st a) \<or> highlight_color (apply_ann titles st a) \<noteq> None"
  proof (cases a)
    case (Ann_h n)
    with a have "n \<in> set (map fst COLOR_MAP)" by simp
    then obtain css where "n \<noteq> []" "n \<noteq> ''default''" "map_of COLOR_MAP n = Some css"
      by (rule color_table_entry)
    with Ann_h show ?thesis by simp
  qed (use a in auto)
  with Cons.IH [OF r, of "apply_ann titles st a"] show ?case by (simp only: foldl_Cons) blast
qed


lemma emphasized_no_lt:
  assumes "t \<noteq> []" "list_all (\<lambda>c. \<not> is_special c) t"
  shows "CHR ''<'' \<notin> set (emphasized b i (core c t))"
  using core_props(3) [OF assms, of c] by (simp add: emphasized_def)

lemma parse_part:
  assumes rp: "roundtrip_part (t, anns)"
  shows "parse_rich_text_recursive (Suc (Suc (Suc (Suc (Suc d)))))
           (part_to_markdown titles True (t, anns) @ rest) no_annotations
           = and_then (Inr [plain_segment t (expected_annotations anns)])
               (parse_rich_text_recursive (Suc (Suc (Suc (Suc d)))) rest no_annotations)"
proof -
  from rp have t: "t \<noteq> []" "list_all (\<lambda>c. \<not> is_special c) t"
    and sp: "hd t \<noteq> CHR '' ''" "last t \<noteq> CHR '' ''"
    and an: "anns \<noteq> []" "list_all roundtrip_ann anns"
    by (simp_all add: roundtrip_part_def)
  from an(2) have no: "Ann_s \<notin> set anns" "Ann_underline \<notin> set anns"
    by (auto simp: list_all_iff)
  define st where "st = foldl (apply_ann titles) (initial_state t) anns"
  define b where "b = is_bold st"
  define i where "i = is_italic st"
  define c where "c = is_code st"
  note ff = fold_flags [OF an(2), of titles "initial_state t", folded st_def]
  from ff have st: "span_text st = t" "\<not> is_strikethrough st" "\<not> is_underline st"
    "link_url st = None" "b = (Ann_b \<in> set anns)" "i = (Ann_i \<in> set anns)"
    "c = (Ann_c \<in> set anns)"
    by (simp_all add: initial_state_def b_def i_def c_def)
  have hc: "highlight_color st = color (expected_annotations anns)"
    using fold_color [OF an(2), of titles "initial_state t"]
    by (simp add: st_def expected_annotations_def initial_state_def)
  have fm: "apply_formatting st t = emphasized b i (core c t)"
    using t(1) st(2,3,4)
    by (simp add: apply_formatting_def emphasized_def core_def b_def i_def c_def Let_def)
  have md: "part_to_markdown titles True (t, anns) = apply_color True st (emphasized b i (core c t))"
    using sp t(1) st(1) fm
    by (simp add: part_to_markdown_def Let_def st_def [symmetric] leading_space_def
        trailing_space_def strip_leading_def strip_trailing_def)
  show ?thesis
  proof (cases "highlight_color st")
    case None
    from fold_some [OF an(2), of "initial_state t" titles, folded st_def] an(1) None
    have "b \<or> i \<or> c" by (simp add: b_def i_def c_def)
    from parse_emphasized_rest [OF t this, of "Suc d" rest no_annotations]
    have "parse_rich_text_recursive (Suc (Suc (Suc (Suc (Suc d)))))
            (emphasized b i (core c t) @ rest) no_annotations
            = and_then (Inr [plain_segment t (merge_flags b i c no_annotations)])
                (parse_rich_text_recursive (Suc (Suc (Suc (Suc d)))) rest no_annotations)" .
    moreover have "merge_flags b i c no_annotations = expected_annotations anns"
      using hc None st(5,6,7) no
      by (simp add: merge_flags_def no_annotations_def expected_annotations_def)
    ultimately show ?thesis by (simp add: md apply_color_def None)
  next
    case (Some n)
    from fold_color_table [OF an(2), of titles "initial_state t" n, folded st_def] Some
    have "n \<in> set (map fst COLOR_MAP)" by (simp add: initial_state_def)
    then obtain css where css: "map_of COLOR_MAP n = Some css" "css \<noteq> []"
      "CHR 0x22 \<notin> set css" "notion_color (strip ('' '' @ css)) = n"
      by (rule color_table_entry)
    note nl = emphasized_no_lt [OF t, of b i c]
    have pc: "parse_rich_text_recursive (Suc (Suc (Suc (Suc (Suc d)))))
                (apply_color True st (emphasized b i (core c t)) @ rest) no_annotations
              = and_then
                  (parse_rich_text_recursive (Suc (Suc (Suc (Suc d))))
                     (emphasized b i (core c t)) (no_annotations\<lparr>color := Some n\<rparr>))
                  (parse_rich_text_recursive (Suc (Suc (Suc (Suc d)))) rest no_annotations)"
      using parse_color [OF css(3,4) nl, of "Suc (Suc (Suc (Suc d)))" rest no_annotations]
        parse_bg [OF css(3,4) nl, of "Suc (Suc (Suc (Suc d)))" rest no_annotations]
      by (simp add: apply_color_def Some css(1,2))
    have "merge_flags b i c (no_annotations\<lparr>color := Some n\<rparr>) = expected_annotations anns"
      using hc Some st(5,6,7) no
      by (simp add: merge_flags_def no_annotations_def expected_annotations_def)
    with pc parse_emphasized [OF t, of d b i c "no_annotations\<lparr>color := Some n\<rparr>"]
    show ?thesis by (simp add: md)
  qed
qed

lemma parse_parts:
  assumes "list_all roundtrip_part rich"
  shows "parse_rich_text_recursive (length rich + Suc (Suc (Suc (Suc d))))
           (rich_text_to_markdown titles True rich) no_annotations
           = Inr (map (\<lambda>part. plain_segment (fst part) (expected_annotations (snd part))) rich)"
  using assms
proof (induction rich)
  case Nil
  show ?case by (simp add: rich_text_to_markdown_def parse_empty)
next
  case (Cons p rich)
  obtain t anns where p: "p = (t, anns)" by (cases p)
  from Cons.prems p have "roundtrip_part (t, anns)" "list_all roundtrip_part rich" by simp_all
  from parse_part [OF this(1), of "length rich + d" titles "rich_text_to_markdown titles True rich"]
    Cons.IH [OF this(2)] p
  show ?case by (simp add: rich_text_to_markdown_def and_then_simps)
qed

text \<open>
  C1 (as amended): for a list of parts, each a non-empty text without the encoder's special
  characters that neither starts nor ends with a space, under at least one annotation among
  bold, italic, code and a color of the 18-entry table (in any combination), rendering with
  \<open>_rich_text_to_markdown\<close> and parsing the result with \<open>_parse_rich_text_recursive\<close>
  returns one segment per part, with the part's text and annotation set, so the two span
  lists agree character by character; this when the stack has room for four nested calls
  more than there are parts (the encoder nests one call per part, and up to four within
  a part).
\<close>

theorem rich_text_roundtrip:
  assumes "list_all roundtrip_part rich" and "length rich + 4 \<le> depth"
  shows "\<exists>segments.
           parse_rich_text_recursive depth (rich_text_to_markdown titles True rich) no_annotations
             = Inr segments
         \<and> segments = map (\<lambda>part. plain_segment (fst part) (expected_annotations (snd part))) rich
         \<and> concat (map segment_chars segments) = concat (map part_chars rich)"
proof -
  define d where "d = depth - (length rich + 4)"
  from assms(2) have d: "depth = length rich + Suc (Suc (Suc (Suc d)))"
    by (simp add: d_def)
  have "concat (map segment_chars
          (map (\<lambda>part. plain_segment (fst part) (expected_annotations (snd part))) rich))
        = concat (map part_chars rich)"
    by (induction rich) (simp_all add: segment_chars_def part_chars_def plain_segment_def)
  with parse_parts [OF assms(1), of d titles] d show ?thesis by simp
qed

lemma ex_rich_roundtrip_parts: "list_all roundtrip_part ex_rich"
  by (simp add: ex_rich_def roundtrip_part_def is_special_def COLOR_MAP_def)

lemma ex_rich_markdown:
  "rich_text_to_markdown (\<lambda>p. None) True ex_rich
     = ''***Hello world*****`x`**<span style=\"color: #D44C47\">**red**</span>''"
  by code_simp

lemma ex_rich_expected:
  "map (\<lambda>part. plain_segment (fst part) (expected_annotations (snd part))) ex_rich
     = [plain_segment ''Hello world'' (no_annotations\<lparr>bold := True, italic := True\<rparr>),
        plain_segment ''x'' (no_annotations\<lparr>bold := True, code := True\<rparr>),
        plain_segment ''red'' (no_annotations\<lparr>bold := True, color := Some ''red''\<rparr>)]"
  by code_simp

lemma ex_rich_depth: "length ex_rich + 4 \<le> 7"
  by (simp add: ex_rich_def)

theorem rich_text_roundtrip_witness:
  "list_all roundtrip_part ex_rich \<and> length ex_rich + 4 \<le> 7
   \<and> parse_rich_text_recursive 7
         ''***Hello world*****`x`**<span style=\"color: #D44C47\">**red**</span>'' no_annotations
       = Inr [plain_segment ''Hello world'' (no_annotations\<lparr>bold := True, italic := True\<rparr>),
              plain_segment ''x'' (no_annotations\<lparr>bold := True, code := True\<rparr>),
              plain_segment ''red'' (no_annotations\<lparr>bold := True, color := Some ''red''\<rparr>)]"
proof -
  from rich_text_roundtrip [OF ex_rich_roundtrip_parts ex_rich_depth, of "\<lambda>p. None"]
  obtain segments where
    "parse_rich_text_recursive 7 (rich_text_to_markdown (\<lambda>p. None) True ex_rich) no_annotations
       = Inr segments"
    "segments = map (\<lambda>part. plain_segment (fst part) (expected_annotations (snd part))) ex_rich"
    by (elim exE conjE)
  then have "parse_rich_text_recursive 7
         ''***Hello world*****`x`**<span style=\"color: #D44C47\">**red**</span>'' no_annotations
       = Inr [plain_segment ''Hello world'' (no_annotations\<lparr>bold := True, italic := True\<rparr>),
              plain_segment ''x'' (no_annotations\<lparr>bold := True, code := True\<rparr>),
              plain_segment ''red'' (no_annotations\<lparr>bold := True, color := Some ''red''\<rparr>)]"
    by (simp only: ex_rich_markdown ex_rich_expected)
  with ex_rich_roundtrip_parts ex_rich_depth show ?thesis by (intro conjI)
qed

text \<open>
  The claim as stated fails: a bold and italic run that starts with a space is rendered
  with the space outside the markers, and the space comes back without annotations (the
  stack here has room for ten nested calls, more than the text needs).
\<close>

theorem rich_text_leading_space_lost:
  "rich_text_to_markdown (\<lambda>p. None) True [('' a'', [Ann_b, Ann_i])] = '' ***a***''
   \<and> parse_rich_text_recursive 10 '' ***a***'' no_annotations
       = Inr [plain_segment '' '' no_annotations,
              plain_segment ''a'' (no_annotations\<lparr>bold := True, italic := True\<rparr>)]
   \<and> concat (map segment_chars
         [plain_segment '' '' no_annotations,
          plain_segment ''a'' (no_annotations\<lparr>bold := True, italic := True\<rparr>)])
       \<noteq> concat (map part_chars [('' a'', [Ann_b, Ann_i])])"
  by code_simp

subsection \<open>Termination of the encoder\<close>

text \<open>
  The lengths of what each pattern binds: every nested call is on a text shorter than the
  one it was bound in.
\<close>

lemma split_on_length:
  "split_on d s = Some (a, b) \<Longrightarrow> length a + length d + length b = length s"
proof (induction s arbitrary: a b)
  case Nil
  then show ?case by (auto split: if_splits)
next
  case (Cons c cs)
  show ?case
  proof (cases "prefix d (c # cs)")
    case True
    with Cons.prems have "a = []" "b = drop (length d) (c # cs)" by auto
    moreover from True have "length d \<le> length (c # cs)" by (rule prefix_length_le)
    ultimately show ?thesis by simp
  next
    case False
    with Cons.prems obtain a' where "split_on d cs = Some (a', b)" "a = c # a'"
      by (auto split: option.splits)
    with Cons.IH [of a' b] show ?thesis by simp
  qed
qed

lemma delimited_ne_length:
  assumes "delimited_ne opn cls s = Some (a, b)"
  shows "length a + length b + length opn + length cls = length s"
proof -
  from assms have p: "prefix opn s" by (auto simp: delimited_ne_def split: if_splits)
  then obtain r where s: "s = opn @ r" by (auto simp: prefix_def)
  from assms p s obtain c r' a' where r: "r = c # r'" and sp: "split_on cls r' = Some (a', b)"
    and a: "a = c # a'"
    by (auto simp: delimited_ne_def split: list.splits option.splits)
  from split_on_length [OF sp] s r a show ?thesis by simp
qed

lemma delimited_length:
  assumes "delimited opn cls s = Some (a, b)"
  shows "length a + length b + length opn + length cls = length s"
proof -
  from assms have p: "prefix opn s" by (auto simp: delimited_def split: if_splits)
  then obtain r where s: "s = opn @ r" by (auto simp: prefix_def)
  from assms p s have "split_on cls r = Some (a, b)" by (simp add: delimited_def)
  from split_on_length [OF this] s show ?thesis by simp
qed

lemma span_match_length:
  assumes "span_match opn s = Some (v, a, b)"
  shows "length a + length b + length opn < length s"
proof -
  from assms have p: "prefix opn s" by (auto simp: span_match_def split: if_splits)
  then obtain r where s: "s = opn @ r" by (auto simp: prefix_def)
  let ?r1 = "dropWhile (\<lambda>c. c \<noteq> CHR 0x22) r"
  from assms p s have sp: "split_on ''</span>'' (drop 2 ?r1) = Some (a, b)"
    by (auto simp: span_match_def Let_def split: if_splits option.splits)
  have "length ?r1 \<le> length r" by (rule length_dropWhile_le)
  then have "length (drop 2 ?r1) \<le> length r" by simp
  with split_on_length [OF sp] s show ?thesis by simp
qed

lemma code_match_length:
  assumes "code_match s = Some (a, b)"
  shows "length a + length b < length s"
proof -
  from assms obtain r where s: "s = CHR 0x60 # r"
    by (auto simp: code_match_def split: list.splits if_splits)
  let ?P = "\<lambda>x. x \<noteq> CHR 0x60"
  from assms s have a: "a = takeWhile ?P r" and b: "b = tl (dropWhile ?P r)"
    by (auto simp: code_match_def Let_def split: if_splits)
  have "length (takeWhile ?P r) + length (dropWhile ?P r) = length r"
    by (metis length_append takeWhile_dropWhile_id)
  then show ?thesis unfolding a b s by simp
qed

lemma link_match_length:
  assumes "link_match s = Some (t, u, b)"
  shows "length t + length b < length s"
proof -
  from assms obtain r where s: "s = CHR ''['' # r"
    by (auto simp: link_match_def split: list.splits if_splits)
  let ?P = "\<lambda>x. x \<noteq> CHR '']''"
  let ?Q = "\<lambda>x. x \<noteq> CHR '')''"
  let ?r2 = "drop 2 (dropWhile ?P r)"
  from assms s have t: "t = takeWhile ?P r" and b: "b = tl (dropWhile ?Q ?r2)"
    by (auto simp: link_match_def Let_def split: if_splits)
  have 1: "length (takeWhile ?P r) + length (dropWhile ?P r) = length r"
    by (metis length_append takeWhile_dropWhile_id)
  have 2: "length (dropWhile ?Q ?r2) \<le> length ?r2" by (rule length_dropWhile_le)
  from 1 2 show ?thesis unfolding t b s by simp
qed



lemma color_match_shorter:
  "color_match s = Some (v, a, b) \<Longrightarrow> length a < length s \<and> length b < length s"
  by (auto simp: color_match_def dest: span_match_length)

lemma bg_match_shorter:
  "bg_match s = Some (v, a, b) \<Longrightarrow> length a < length s \<and> length b < length s"
  by (auto simp: bg_match_def dest: span_match_length)

lemma underline_match_shorter:
  "underline_match s = Some (a, b) \<Longrightarrow> length a < length s \<and> length b < length s"
  by (auto simp: underline_match_def dest: delimited_length)

lemma bold_italic_match_shorter:
  "bold_italic_match s = Some (a, b) \<Longrightarrow> length a < length s \<and> length b < length s"
  by (auto simp: bold_italic_match_def dest: delimited_ne_length)

lemma bold_match_shorter:
  "bold_match s = Some (a, b) \<Longrightarrow> length a < length s \<and> length b < length s"
  by (auto simp: bold_match_def dest: delimited_ne_length)

lemma italic_match_shorter:
  "italic_match s = Some (a, b) \<Longrightarrow> length a < length s \<and> length b < length s"
  by (auto simp: italic_match_def dest: delimited_ne_length)

lemma strike_match_shorter:
  "strike_match s = Some (a, b) \<Longrightarrow> length a < length s \<and> length b < length s"
  by (auto simp: strike_match_def dest: delimited_ne_length)

lemma code_match_shorter:
  "code_match s = Some (a, b) \<Longrightarrow> length a < length s \<and> length b < length s"
  by (auto dest: code_match_length)

lemma link_match_shorter:
  "link_match s = Some (t, u, b) \<Longrightarrow> length t < length s \<and> length b < length s"
  by (auto dest: link_match_length)

lemma dispatch_Format_cases:
  assumes "dispatch s ann = Format inner ann' remaining"
  shows "(\<exists>v. color_match s = Some (v, inner, remaining))
       \<or> (\<exists>v. bg_match s = Some (v, inner, remaining))
       \<or> underline_match s = Some (inner, remaining)
       \<or> bold_italic_match s = Some (inner, remaining)
       \<or> bold_match s = Some (inner, remaining)
       \<or> italic_match s = Some (inner, remaining)
       \<or> strike_match s = Some (inner, remaining)
       \<or> code_match s = Some (inner, remaining)"
  using assms unfolding dispatch_def
  by (simp split: option.splits if_splits prod.splits)

lemma dispatch_Format:
  assumes "dispatch s ann = Format inner ann' remaining"
  shows "length inner < length s \<and> length remaining < length s"
  using dispatch_Format_cases [OF assms]
    color_match_shorter [of s _ inner remaining] bg_match_shorter [of s _ inner remaining]
    underline_match_shorter [of s inner remaining]
    bold_italic_match_shorter [of s inner remaining] bold_match_shorter [of s inner remaining]
    italic_match_shorter [of s inner remaining] strike_match_shorter [of s inner remaining]
    code_match_shorter [of s inner remaining]
  by blast

lemma dispatch_Link:
  assumes "dispatch s ann = Link link_text target remaining"
  shows "length link_text < length s \<and> length remaining < length s"
proof -
  from assms have "link_match s = Some (link_text, target, remaining)"
    unfolding dispatch_def by (simp split: option.splits if_splits prod.splits)
  then show ?thesis by (rule link_match_shorter)
qed

lemma dispatch_Plain:
  assumes "dispatch s ann = Plain plain_text remaining" and "s \<noteq> []"
  shows "plain_text \<noteq> [] \<and> s = plain_text @ remaining"
proof -
  from assms(1) have
    "(0 < next_special s \<and> plain_text = take (next_special s) s \<and> remaining = drop (next_special s) s)
     \<or> (plain_text = take 1 s \<and> remaining = drop 1 s)"
    unfolding dispatch_def by (simp split: option.splits if_splits prod.splits)
  with assms(2) show ?thesis by (cases s) auto
qed

lemma parse_returns:
  "length s < depth \<Longrightarrow> \<exists>segments. parse_rich_text_recursive depth s ann = Inr segments"
proof (induction depth arbitrary: s ann)
  case 0
  then show ?case by simp
next
  case (Suc depth)
  show ?case
  proof (cases "s = []")
    case True
    then show ?thesis by (simp add: parse_empty)
  next
    case ne: False
    show ?thesis
    proof (cases "dispatch s ann")
      case (Format inner ann' remaining)
      from dispatch_Format [OF this] Suc.prems
      have "length inner < depth" "length remaining < depth" by simp_all
      from Suc.IH [OF this(1), of ann'] Suc.IH [OF this(2), of ann] ne Format
      show ?thesis by (auto simp: parse_rich_text_recursive.simps(2) and_then_simps)
    next
      case (Link link_text target remaining)
      from dispatch_Link [OF this] Suc.prems
      have "length link_text < depth" "length remaining < depth" by simp_all
      from Suc.IH [OF this(1), of ann] Suc.IH [OF this(2), of ann] ne Link
      show ?thesis by (auto simp: parse_rich_text_recursive.simps(2) and_then_simps)
    next
      case (Plain plain_text remaining)
      from dispatch_Plain [OF this ne] have "plain_text \<noteq> []" "s = plain_text @ remaining"
        by simp_all
      then have "length remaining < length s"
        by (metis length_append length_greater_0_conv less_add_same_cancel2)
      with Suc.prems have "length remaining < depth" by simp
      from Suc.IH [OF this, of ann] ne Plain
      show ?thesis by (auto simp: parse_rich_text_recursive.simps(2) and_then_simps)
    qed
  qed
qed

lemma brackets_dispatch:
  "dispatch (CHR ''['' # replicate n CHR ''['') ann = Plain ''['' (replicate n CHR ''['')"
  by (simp add: dispatch_def color_match_def bg_match_def span_match_def underline_match_def
      delimited_def bold_italic_match_def bold_match_def italic_match_def strike_match_def
      delimited_ne_def code_match_def link_match_def next_special_def is_special_def
      takeWhile_replicate dropWhile_replicate)

lemma brackets_overflow:
  "depth \<le> n \<Longrightarrow> parse_rich_text_recursive depth (replicate n CHR ''['') ann = Inl RecursionError"
proof (induction depth arbitrary: n)
  case 0
  show ?case by (simp add: parse_rich_text_recursive.simps(1))
next
  case (Suc depth)
  then obtain m where n: "n = Suc m" and m: "depth \<le> m" by (cases n) auto
  from Suc.IH [OF m] show ?case
    by (simp add: n parse_rich_text_recursive.simps(2) brackets_dispatch and_then_simps)
qed

text \<open>
  C6 (as amended): \<open>_parse_rich_text_recursive\<close> returns on every text shorter than the
  number of nested calls the stack has room for. On a non-empty text every branch makes its
  nested calls on strictly shorter texts only; and when the text starts with a special
  character and no pattern matches, that one character is emitted as a literal segment and
  the scan goes on one character further.
\<close>

theorem parse_rich_text_terminates:
  "(length s < depth \<longrightarrow> (\<exists>segments. parse_rich_text_recursive depth s ann = Inr segments))
   \<and> (s \<noteq> [] \<longrightarrow>
      (case dispatch s ann of
         Format inner new_annotations remaining \<Rightarrow>
           length inner < length s \<and> length remaining < length s
       | Link link_text target remaining \<Rightarrow>
           length link_text < length s \<and> length remaining < length s
       | Plain plain_text remaining \<Rightarrow> length remaining < length s))
   \<and> (s \<noteq> [] \<and> is_special (hd s)
        \<and> color_match s = None \<and> bg_match s = None \<and> underline_match s = None
        \<and> bold_italic_match s = None \<and> bold_match s = None \<and> italic_match s = None
        \<and> strike_match s = None \<and> code_match s = None \<and> link_match s = None \<longrightarrow>
      parse_rich_text_recursive (Suc depth) s ann
        = and_then (Inr [plain_segment [hd s] ann]) (parse_rich_text_recursive depth (tl s) ann)
      \<and> Suc (length (tl s)) = length s)"
proof (intro conjI impI)
  assume "length s < depth"
  then show "\<exists>segments. parse_rich_text_recursive depth s ann = Inr segments"
    by (rule parse_returns)
next
  assume ne: "s \<noteq> []"
  show "case dispatch s ann of
         Format inner new_annotations remaining \<Rightarrow>
           length inner < length s \<and> length remaining < length s
       | Link link_text target remaining \<Rightarrow>
           length link_text < length s \<and> length remaining < length s
       | Plain plain_text remaining \<Rightarrow> length remaining < length s"
  proof (cases "dispatch s ann")
    case (Format inner ann' remaining)
    with dispatch_Format [OF this] show ?thesis by simp
  next
    case (Link link_text target remaining)
    with dispatch_Link [OF this] show ?thesis by simp
  next
    case (Plain plain_text remaining)
    from dispatch_Plain [OF this ne] have "plain_text \<noteq> []" "s = plain_text @ remaining"
      by simp_all
    then have "length remaining < length s"
      by (metis length_append length_greater_0_conv less_add_same_cancel2)
    with Plain show ?thesis by simp
  qed
next
  assume a: "s \<noteq> [] \<and> is_special (hd s)
        \<and> color_match s = None \<and> bg_match s = None \<and> underline_match s = None
        \<and> bold_italic_match s = None \<and> bold_match s = None \<and> italic_match s = None
        \<and> strike_match s = None \<and> code_match s = None \<and> link_match s = None"
  then obtain c r where s: "s = c # r" and c: "is_special c" by (cases s) auto
  from c have "next_special s = 0" by (simp add: next_special_def s)
  with a have "dispatch s ann = Plain [c] r" by (simp add: dispatch_def s)
  then show "parse_rich_text_recursive (Suc depth) s ann
        = and_then (Inr [plain_segment [hd s] ann]) (parse_rich_text_recursive depth (tl s) ann)"
    by (simp add: parse_rich_text_recursive.simps(2) s)
  show "Suc (length (tl s)) = length s" by (simp add: s)
qed

theorem parse_rich_text_terminates_witness:
  "length ''*a'' < 3 \<and> is_special (hd ''*a'')
   \<and> parse_rich_text_recursive 3 ''*a'' no_annotations
       = Inr [plain_segment ''*'' no_annotations, plain_segment ''a'' no_annotations]
   \<and> dispatch ''**b**c'' no_annotations = Format ''b'' (no_annotations\<lparr>bold := True\<rparr>) ''c''
   \<and> length ''b'' < length ''**b**c'' \<and> length ''c'' < length ''**b**c''"
proof -
  have m: "color_match ''*a'' = None" "bg_match ''*a'' = None" "underline_match ''*a'' = None"
    "bold_italic_match ''*a'' = None" "bold_match ''*a'' = None" "italic_match ''*a'' = None"
    "strike_match ''*a'' = None" "code_match ''*a'' = None" "link_match ''*a'' = None"
    by code_simp+
  have sp: "is_special (hd ''*a'')" by (simp add: is_special_def)
  have d: "dispatch ''**b**c'' no_annotations = Format ''b'' (no_annotations\<lparr>bold := True\<rparr>) ''c''"
    by code_simp
  have a: "parse_rich_text_recursive 2 ''a'' no_annotations = Inr [plain_segment ''a'' no_annotations]"
    by code_simp
  have n: "(3::nat) = Suc 2" by simp
  have l: "length ''*a'' < 3" by simp
  from parse_rich_text_terminates [of "''*a''" 3 no_annotations] l
  obtain segments where r: "parse_rich_text_recursive 3 ''*a'' no_annotations = Inr segments"
    by blast
  from parse_rich_text_terminates [of "''*a''" 2 no_annotations] m sp
  have "parse_rich_text_recursive (Suc 2) ''*a'' no_annotations
       = and_then (Inr [plain_segment ''*'' no_annotations])
           (parse_rich_text_recursive 2 ''a'' no_annotations)"
    by simp
  with r have 1: "parse_rich_text_recursive 3 ''*a'' no_annotations
       = Inr [plain_segment ''*'' no_annotations, plain_segment ''a'' no_annotations]"
    by (simp only: n a and_then_simps append.simps)
  from parse_rich_text_terminates [of "''**b**c''" 0 no_annotations]
  have 2: "length ''b'' < length ''**b**c'' \<and> length ''c'' < length ''**b**c''"
    by (simp only: d branch.case) simp
  from l sp 1 d 2 show ?thesis by (intro conjI) (simp_all only: simp_thms)
qed

text \<open>
  The claim as stated fails: the encoder nests one call per character of a run of special
  characters that match no pattern, and on 1200 opening brackets it raises
  \<open>RecursionError\<close> under Python's recursion limit of 1000 instead of returning.
\<close>

theorem parse_rich_text_recursion_error:
  "parse_rich_text_recursive 1000 (replicate 1200 CHR ''['') no_annotations = Inl RecursionError"
  by (rule brackets_overflow) simp

subsection \<open>The paragraph branch of the Markdown parser\<close>

lemma ws_codes_bytes:
  "\<forall>w \<in> set ws_codes. CHR ''!'' \<notin> set w \<and> CHR ''['' \<notin> set w"
  by (simp add: ws_codes_def)

lemma ws_len_bang: "ws_len (CHR ''!'' # r) = 0"
  by (simp add: ws_len_def ws_codes_def)

lemma lstrip_bang: "lstrip (CHR ''!'' # r) = CHR ''!'' # r"
  by (simp add: lstrip_def ws_len_bang)

lemma rstrip_n_image: "prefix ''!['' s \<Longrightarrow> prefix ''!['' (rstrip_n n s)"
proof (induction n arbitrary: s)
  case 0
  then show ?case by simp
next
  case (Suc n)
  show ?case
  proof (cases "ws_len_end s = 0")
    case True
    with Suc.prems show ?thesis by simp
  next
    case False
    then obtain w where f: "find (\<lambda>w. suffix w s) ws_codes = Some w" and l: "ws_len_end s = length w"
      by (auto simp: ws_len_end_def split: option.splits)
    from f have w: "w \<in> set ws_codes" and sw: "suffix w s"
      by (auto simp: find_Some_iff)
    from sw obtain p where s: "s = p @ w" by (auto simp: suffix_def)
    from l s have tk: "take (length s - ws_len_end s) s = p" by simp
    from Suc.prems obtain r where sr: "s = CHR ''!'' # CHR ''['' # r" by (auto simp: prefix_def)
    from w ws_codes_bytes have nb: "CHR ''!'' \<notin> set w" "CHR ''['' \<notin> set w" by auto
    have "prefix ''!['' p"
    proof (cases p)
      case Nil
      with s sr nb show ?thesis by auto
    next
      case (Cons a p')
      show ?thesis
      proof (cases p')
        case Nil
        with Cons s sr nb show ?thesis by auto
      next
        case (Cons b p'')
        with \<open>p = a # p'\<close> s sr show ?thesis by auto
      qed
    qed
    from Suc.IH [OF this] False tk show ?thesis by simp
  qed
qed

lemma strip_image: "prefix ''!['' l \<Longrightarrow> prefix ''!['' (strip l)"
proof -
  assume p: "prefix ''!['' l"
  then obtain r where "l = CHR ''!'' # CHR ''['' # r" by (auto simp: prefix_def)
  then have "lstrip l = l" by (simp add: lstrip_bang)
  with p show ?thesis by (simp add: strip_def rstrip_def rstrip_n_image)
qed

lemma para_loop_eq:
  "para_loop acc ls = (acc @ takeWhile absorbs ls, dropWhile absorbs ls)"
  by (induction ls arbitrary: acc) auto

lemma no_rule:
  "\<not> matches_rule_1_to_9 l \<Longrightarrow>
     \<not> rule_heading l \<and> \<not> rule_divider l \<and> \<not> rule_bullet l \<and> \<not> rule_numbered l
     \<and> \<not> rule_quote l \<and> \<not> rule_code_fence l \<and> \<not> rule_table l \<and> \<not> rule_details l
     \<and> \<not> rule_image l \<and> \<not> rule_embed l"
  by (auto simp: matches_rule_1_to_9_def classify_def split: if_splits)

text \<open>
  C7 (as amended): a line following the open paragraph is absorbed only if it is not blank
  and is matched by none of the heading, divider, quote or callout and code-fence rules,
  nor by the bullet or image rule as an un-indented line; it is absorbed whenever it is
  not blank, matches none of rules 1 to 9 and does not begin with \<open>#\<close>, \<open>-\<close> or \<open>>\<close>.
  The absorbed lines are joined with single spaces into the text of one paragraph.
\<close>

theorem paragraph_absorption:
  "(absorbs l \<longrightarrow>
      strip l \<noteq> [] \<and> \<not> rule_heading l \<and> \<not> rule_divider l \<and> \<not> rule_quote l
      \<and> \<not> rule_code_fence l \<and> \<not> prefix ''- '' l \<and> \<not> prefix ''!['' l)
   \<and> (strip l \<noteq> [] \<and> \<not> matches_rule_1_to_9 l
        \<and> \<not> prefix ''#'' l \<and> \<not> prefix ''-'' l \<and> \<not> prefix ''>'' l \<longrightarrow> absorbs l)
   \<and> paragraph_branch line following
       = (join '' '' (line # takeWhile absorbs following), dropWhile absorbs following)"
proof (intro conjI impI)
  assume a: "absorbs l"
  then show "strip l \<noteq> []" "\<not> rule_divider l" "\<not> rule_code_fence l" "\<not> prefix ''!['' l"
    by (simp_all add: absorbs_def rule_divider_def rule_code_fence_def)
  from a have h: "\<not> prefix ''#'' l" "\<not> prefix ''-'' l" "\<not> prefix ''>'' l"
    by (simp_all add: absorbs_def)
  from h(1) show "\<not> rule_heading l" by (auto simp: rule_heading_def prefix_def)
  from h(3) show "\<not> rule_quote l" by (auto simp: rule_quote_def prefix_def)
  from h(2) show "\<not> prefix ''- '' l" by (auto simp: prefix_def)
next
  assume b: "strip l \<noteq> [] \<and> \<not> matches_rule_1_to_9 l
        \<and> \<not> prefix ''#'' l \<and> \<not> prefix ''-'' l \<and> \<not> prefix ''>'' l"
  with no_rule [of l] have "\<not> rule_divider l" "\<not> rule_code_fence l" "\<not> rule_image l"
    by simp_all
  moreover from this(3) strip_image [of l] have "\<not> prefix ''!['' l"
    by (auto simp: rule_image_def)
  ultimately show "absorbs l"
    using b by (simp add: absorbs_def rule_divider_def rule_code_fence_def)
next
  show "paragraph_branch line following
       = (join '' '' (line # takeWhile absorbs following), dropWhile absorbs following)"
    by (simp add: paragraph_branch_def para_loop_eq)
qed

lemma more_text_line: "strip ''more text'' \<noteq> []" "\<not> matches_rule_1_to_9 ''more text''"
  "\<not> prefix ''#'' ''more text''" "\<not> prefix ''-'' ''more text''" "\<not> prefix ''>'' ''more text''"
  by code_simp+

lemma more_text_paragraph: "join '' '' (''para'' # takeWhile absorbs [''more text'', [], ''x'']) = ''para more text''"
  "dropWhile absorbs [''more text'', [], ''x''] = [[], ''x'']"
  by code_simp+

theorem paragraph_absorption_witness:
  "absorbs ''more text''
   \<and> paragraph_branch ''para'' [''more text'', [], ''x''] = (''para more text'', [[], ''x''])"
  using paragraph_absorption [of "''more text''" "''para''" "[''more text'', [], ''x'']"] more_text_line more_text_paragraph
  by simp

text \<open>
  The claim as stated fails in both directions: \<open>#tag\<close> matches no rule and is not
  absorbed; \<open>1. item\<close> matches the numbered-item rule and is absorbed.
\<close>

theorem paragraph_absorption_mismatch:
  "strip ''#tag'' \<noteq> [] \<and> \<not> matches_rule_1_to_9 ''#tag'' \<and> \<not> absorbs ''#tag''
   \<and> paragraph_branch ''para'' [''#tag''] = (''para'', [''#tag''])
   \<and> matches_rule_1_to_9 ''1. item'' \<and> absorbs ''1. item''
   \<and> paragraph_branch ''para'' [''1. item''] = (''para 1. item'', [])"
  by code_simp

subsection \<open>Callouts\<close>

text \<open>
  C5: for a callout whose own text is empty (or white space only) and whose first child
  resolves to a block, the callout line is \<open>> icon\<close> followed by the first child's text,
  and what is rendered beneath it is the remaining children only: the first child is
  rendered nowhere else.
\<close>

theorem callout_hoists_first_child:
  assumes "blocks block_id = Some b" "b_alive b" "b_type b = ''callout''"
    and "strip (rich_text_to_markdown (page_titles e) True (b_title b)) = []"
    and "b_content b = first_id # others" "blocks first_id = Some first_child"
  shows "render_block (Suc n) e blocks indent space_id block_id
           = map_option
               (\<lambda>r. ''> '' @ callout_icon b @ '' ''
                      @ rich_text_to_markdown (page_titles e) True (b_title first_child)
                      @ [CHR 0x0A, CHR 0x0A] @ r)
               (render_blocks n e blocks indent (child_space space_id b) others)"
  using assms
  by (simp add: render_blocks_def child_space_def Let_def split: option.splits)

lemma callout_example_facts:
  "callout_blocks ''c'' = Some (mk_block ''c'' ''callout'' [] [''k1'', ''k2''])"
  "callout_blocks ''k1'' = Some (mk_block ''k1'' ''text'' [(''Note: hello'', [])] [])"
  "b_alive (mk_block ''c'' ''callout'' [] [''k1'', ''k2''])"
  "b_type (mk_block ''c'' ''callout'' [] [''k1'', ''k2'']) = ''callout''"
  "strip (rich_text_to_markdown (page_titles ex_env) True
     (b_title (mk_block ''c'' ''callout'' [] [''k1'', ''k2'']))) = []"
  "b_content (mk_block ''c'' ''callout'' [] [''k1'', ''k2'']) = ''k1'' # [''k2'']"
  by (simp_all add: callout_blocks_def mk_block_def rich_text_to_markdown_def strip_def
      lstrip_def rstrip_def)

lemma callout_example_rest:
  "render_blocks 2 ex_env callout_blocks 0
     (child_space None (mk_block ''c'' ''callout'' [] [''k1'', ''k2''])) [''k2'']
   = Some ([CHR 0x0A] @ ''more'' @ [CHR 0x0A])"
  by code_simp

lemma callout_example_line:
  "''> '' @ callout_icon (mk_block ''c'' ''callout'' [] [''k1'', ''k2'']) @ '' ''
     @ rich_text_to_markdown (page_titles ex_env) True
         (b_title (mk_block ''k1'' ''text'' [(''Note: hello'', [])] []))
   = ''> '' @ default_icon @ '' Note: hello''"
  by code_simp

theorem callout_hoists_first_child_witness:
  "render_block 3 ex_env callout_blocks 0 None ''c''
     = Some (''> '' @ default_icon @ '' Note: hello'' @ [CHR 0x0A, CHR 0x0A]
             @ [CHR 0x0A] @ ''more'' @ [CHR 0x0A])"
proof -
  have "render_block (Suc 2) ex_env callout_blocks 0 None ''c''
     = Some ((''> '' @ callout_icon (mk_block ''c'' ''callout'' [] [''k1'', ''k2'']) @ '' ''
          @ rich_text_to_markdown (page_titles ex_env) True
              (b_title (mk_block ''k1'' ''text'' [(''Note: hello'', [])] [])))
          @ [CHR 0x0A, CHR 0x0A] @ [CHR 0x0A] @ ''more'' @ [CHR 0x0A])"
    using callout_hoists_first_child [where blocks = callout_blocks and block_id = "''c''"
        and b = "mk_block ''c'' ''callout'' [] [''k1'', ''k2'']" and e = ex_env
        and first_id = "''k1''" and others = "[''k2'']"
        and first_child = "mk_block ''k1'' ''text'' [(''Note: hello'', [])] []"
        and n = 2 and indent = 0 and space_id = None, OF callout_example_facts(1,3,4,5,6,2)]
    by (simp only: callout_example_rest option.map append_assoc)
  moreover have "(3::nat) = Suc 2" by simp
  ultimately show ?thesis
    by (simp only: callout_example_line append_assoc)
qed


subsection \<open>Column lists\<close>

text \<open>
  C8 (as amended): for a column list with children, the columns are its children that
  resolve to a block of type \<open>column\<close>, empty or not. With more than one column the
  output is an HTML table with exactly one \<open>td\<close> cell per column in source order, each
  holding the rendering of that column's children; with exactly one column its children are
  rendered inline with no table wrapper; with none nothing is written.
\<close>

theorem column_list_render:
  assumes "blocks block_id = Some b" "b_alive b" "b_type b = ''column_list''"
    and "b_content b \<noteq> []"
  shows "(1 < length (columns_content blocks (b_content b)) \<longrightarrow>
            render_block (Suc n) e blocks indent space_id block_id
              = map_option
                  (\<lambda>cells. [CHR 0x0A] @ ''<table><tr>'' @ [CHR 0x0A] @ cells
                            @ ''</tr></table>'' @ [CHR 0x0A, CHR 0x0A])
                  (join_outputs
                     (map (\<lambda>col_children.
                             map_option
                               (\<lambda>r. ''<td valign=\"top\">'' @ [CHR 0x0A, CHR 0x0A] @ r
                                      @ [CHR 0x0A] @ ''</td>'' @ [CHR 0x0A])
                               (render_blocks n e blocks 0 (child_space space_id b) col_children))
                          (columns_content blocks (b_content b)))))
       \<and> (\<forall>col_children. columns_content blocks (b_content b) = [col_children] \<longrightarrow>
            render_block (Suc n) e blocks indent space_id block_id
              = render_blocks n e blocks indent (child_space space_id b) col_children)
       \<and> (columns_content blocks (b_content b) = [] \<longrightarrow>
            render_block (Suc n) e blocks indent space_id block_id = Some [])"
proof -
  have cell: "\<And>x. (case x of None \<Rightarrow> None
                 | Some r \<Rightarrow> Some (''<td valign=\"top\">'' @ [CHR 0x0A, CHR 0x0A] @ r
                                   @ [CHR 0x0A] @ ''</td>'' @ [CHR 0x0A]))
            = map_option (\<lambda>r. ''<td valign=\"top\">'' @ [CHR 0x0A, CHR 0x0A] @ r
                                   @ [CHR 0x0A] @ ''</td>'' @ [CHR 0x0A]) x"
    by (simp split: option.splits)
  have one: "\<And>x. join_outputs [x] = x"
    by (case_tac x) simp_all
  show ?thesis
    using assms
    by (auto simp: render_blocks_def child_space_def Let_def cell one split: option.splits)
qed

lemma column_example_facts:
  "column_blocks ''cl'' = Some (mk_block ''cl'' ''column_list'' [] [''a'', ''b''])"
  "b_alive (mk_block ''cl'' ''column_list'' [] [''a'', ''b''])"
  "b_type (mk_block ''cl'' ''column_list'' [] [''a'', ''b'']) = ''column_list''"
  "b_content (mk_block ''cl'' ''column_list'' [] [''a'', ''b'']) \<noteq> []"
  "columns_content column_blocks (b_content (mk_block ''cl'' ''column_list'' [] [''a'', ''b'']))
     = [[''p''], []]"
  by (simp_all add: column_blocks_def mk_block_def)

lemma one_column_example_facts:
  "one_column_blocks ''cl'' = Some (mk_block ''cl'' ''column_list'' [] [''a''])"
  "b_alive (mk_block ''cl'' ''column_list'' [] [''a''])"
  "b_type (mk_block ''cl'' ''column_list'' [] [''a'']) = ''column_list''"
  "b_content (mk_block ''cl'' ''column_list'' [] [''a'']) \<noteq> []"
  "columns_content one_column_blocks (b_content (mk_block ''cl'' ''column_list'' [] [''a'']))
     = [[''p'']]"
  by (simp_all add: one_column_blocks_def mk_block_def)

lemma column_example_cells:
  "render_blocks 2 ex_env column_blocks 0
     (child_space None (mk_block ''cl'' ''column_list'' [] [''a'', ''b''])) [''p'']
     = Some ([CHR 0x0A] @ ''left'' @ [CHR 0x0A])"
  "render_blocks 2 ex_env column_blocks 0
     (child_space None (mk_block ''cl'' ''column_list'' [] [''a'', ''b''])) [] = Some []"
  "render_blocks 2 ex_env one_column_blocks 0
     (child_space None (mk_block ''cl'' ''column_list'' [] [''a''])) [''p'']
     = Some ([CHR 0x0A] @ ''left'' @ [CHR 0x0A])"
  by code_simp+

theorem column_list_render_witness:
  "render_block (Suc 2) ex_env column_blocks 0 None ''cl''
     = Some ([CHR 0x0A] @ ''<table><tr>'' @ [CHR 0x0A]
             @ ''<td valign=\"top\">'' @ [CHR 0x0A, CHR 0x0A, CHR 0x0A] @ ''left''
             @ [CHR 0x0A, CHR 0x0A] @ ''</td>'' @ [CHR 0x0A]
             @ ''<td valign=\"top\">'' @ [CHR 0x0A, CHR 0x0A, CHR 0x0A] @ ''</td>'' @ [CHR 0x0A]
             @ ''</tr></table>'' @ [CHR 0x0A, CHR 0x0A])
   \<and> render_block (Suc 2) ex_env one_column_blocks 0 None ''cl''
     = Some ([CHR 0x0A] @ ''left'' @ [CHR 0x0A])"
proof -
  note two = column_list_render [where blocks = column_blocks and block_id = "''cl''"
      and b = "mk_block ''cl'' ''column_list'' [] [''a'', ''b'']" and n = 2 and e = ex_env
      and indent = 0 and space_id = None, OF column_example_facts(1,2,3,4)]
  note one = column_list_render [where blocks = one_column_blocks and block_id = "''cl''"
      and b = "mk_block ''cl'' ''column_list'' [] [''a'']" and n = 2 and e = ex_env
      and indent = 0 and space_id = None, OF one_column_example_facts(1,2,3,4)]
  from two one show ?thesis
    by (simp add: column_example_facts(5) one_column_example_facts(5) column_example_cells
        del: render_block.simps)
qed

text \<open>
  The claim as stated fails: with two columns of which exactly one is non-empty the
  renderer writes a table of two cells, not the inline rendering of that column.
\<close>

theorem column_list_one_nonempty_column:
  "columns_content column_blocks [''a'', ''b''] = [[''p''], []]
   \<and> render_block 3 ex_env column_blocks 0 None ''cl''
     = Some ([CHR 0x0A] @ ''<table><tr>'' @ [CHR 0x0A]
             @ ''<td valign=\"top\">'' @ [CHR 0x0A, CHR 0x0A, CHR 0x0A] @ ''left''
             @ [CHR 0x0A, CHR 0x0A] @ ''</td>'' @ [CHR 0x0A]
             @ ''<td valign=\"top\">'' @ [CHR 0x0A, CHR 0x0A, CHR 0x0A] @ ''</td>'' @ [CHR 0x0A]
             @ ''</tr></table>'' @ [CHR 0x0A, CHR 0x0A])
   \<and> render_block 3 ex_env column_blocks 0 None ''cl''
     \<noteq> render_blocks 2 ex_env column_blocks 0 None [''p'']"
  by code_simp

subsection \<open>The visited set of the export pipeline\<close>

lemma run_all_preserves:
  assumes step: "\<And>page_id dir st out st'. f page_id dir st = Some (out, st') \<Longrightarrow> P st \<Longrightarrow> P st'"
  shows "run_all f ts st = Some (out, st') \<Longrightarrow> P st \<Longrightarrow> P st'"
proof (induction ts arbitrary: st)
  case Nil
  then show ?case by simp
next
  case (Cons t ts)
  obtain page_id dir where t: "t = (page_id, dir)" by (cases t)
  show ?case
  proof (cases "f page_id dir st")
    case None
    with Cons.prems t show ?thesis by simp
  next
    case (Some r)
    obtain o1 st1 where r: "r = (o1, st1)" by (cases r)
    from step [OF Some [unfolded r] Cons.prems(2)] have p1: "P st1" .
    show ?thesis
    proof (cases o1)
      case Returned
      with Some r t Cons.prems(1) have "run_all f ts st1 = Some (out, st')" by simp
      from Cons.IH [OF this p1] show ?thesis .
    next
      case Raised
      with Some r t Cons.prems(1) have "st' = st1" by simp
      with p1 show ?thesis by simp
    qed
  qed
qed

lemma visit_new:
  assumes "visited_once st" "page_id \<notin> seen_pages st"
  shows "visited_once (st\<lparr>seen_pages := insert page_id (seen_pages st),
                          fetched := fetched st @ [page_id]\<rparr>)"
    and "visited_once (st\<lparr>seen_pages := insert page_id (seen_pages st),
                          fetched := fetched st @ [page_id],
                          written := written st @ [(page_id, dir)]\<rparr>)"
  using assms by (auto simp: visited_once_def)

lemma export_page_preserves:
  "export_page n e w output_dir page_id parent_dir st = Some (out, st') \<Longrightarrow>
     visited_once st \<Longrightarrow> visited_once st'"
proof (induction n arbitrary: page_id parent_dir st out st')
  case 0
  then show ?case by simp
next
  case (Suc n)
  show ?case
  proof (cases "page_id \<in> seen_pages st")
    case True
    with Suc.prems show ?thesis by simp
  next
    case False
    define st1 where "st1 = st\<lparr>seen_pages := insert page_id (seen_pages st),
                                fetched := fetched st @ [page_id]\<rparr>"
    from visit_new(1) [OF Suc.prems(2) False] have v1: "visited_once st1" by (simp add: st1_def)
    show ?thesis
    proof (cases "record_map w page_id")
      case (Inl err)
      with False Suc.prems(1) have "st' = st1" by (simp add: st1_def Let_def)
      with v1 show ?thesis by simp
    next
      case (Inr blocks)
      show ?thesis
      proof (cases "map_of blocks page_id")
        case None
        with False Inr Suc.prems(1) have "st' = st1" by (simp add: st1_def Let_def)
        with v1 show ?thesis by simp
      next
        case (Some pb)
        define page_title where
          "page_title = or_else (rich_text_to_plain (b_title pb)) ''untitled''"
        show ?thesis
        proof (cases "page_title \<in> skip_titles w")
          case True
          with False Inr Some Suc.prems(1) have "st' = st1"
            by (simp add: st1_def page_title_def Let_def)
          with v1 show ?thesis by simp
        next
          case skip: False
          define page_dir where "page_dir = parent_dir @ [slugify e page_title]"
          define st2 where "st2 = st1\<lparr>written := written st1 @ [(page_id, page_dir)]\<rparr>"
          from visit_new(2) [OF Suc.prems(2) False, of page_dir] have v2: "visited_once st2"
            by (simp add: st2_def st1_def)
          from False Inr Some skip Suc.prems(1)
          have run: "run_all (export_page n e w output_dir)
                       (export_targets w page_id page_dir output_dir blocks) st2 = Some (out, st')"
            by (simp add: st1_def st2_def page_title_def page_dir_def Let_def)
          show ?thesis
            by (rule run_all_preserves [where P = visited_once, OF _ run v2]) (rule Suc.IH)
        qed
      qed
    qed
  qed
qed

text \<open>
  C4: in every run of the exporter that returns or is ended by an exception, no page
  identifier is fetched or written more than once: \<open>_export_page\<close> returns at once for an
  identifier in \<open>seen_pages\<close>, before any fetch or recursion. So a page reached both as a
  child page and as a member of a database is exported once.
\<close>

theorem export_visits_once:
  assumes "export_tree n e w http_get output_dir root_url = Some (Inr (out, st))"
  shows "distinct (fetched st) \<and> set (fetched st) = seen_pages st
       \<and> distinct (map fst (written st)) \<and> set (map fst (written st)) \<subseteq> set (fetched st)"
proof -
  from assms obtain root_id where
    "export_page n e w output_dir root_id output_dir initial_export_state = Some (out, st)"
    by (auto simp: export_tree_def split: sum.splits)
  moreover have "visited_once initial_export_state"
    by (simp add: visited_once_def initial_export_state_def)
  ultimately have "visited_once st" by (rule export_page_preserves)
  then show ?thesis unfolding visited_once_def .
qed

lemma ex_world_run:
  "export_tree 3 ex_env ex_world (\<lambda>u. Inl RequestException) [''out'']
      ''11111111111111111111111111111111''
   = Some (Inr (Returned,
        \<lparr> seen_pages = {''other'', ''kid'', ''11111111-1111-1111-1111-111111111111''},
          fetched = [''11111111-1111-1111-1111-111111111111'', ''kid'', ''other''],
          written = [(''11111111-1111-1111-1111-111111111111'', [''out'', ''Root'']),
                     (''kid'', [''out'', ''Root'', ''Kid'']),
                     (''other'', [''out'', ''Other''])] \<rparr>))"
  by code_simp

lemma ex_world_targets:
  "export_targets ex_world ''11111111-1111-1111-1111-111111111111'' [''out'', ''Root''] [''out'']
     [(''11111111-1111-1111-1111-111111111111'',
         page_block ''11111111-1111-1111-1111-111111111111'' ''Root''),
      (''kid'', mk_block ''kid'' ''child_page'' [(''Kid'', [])] []),
      (''view'', (mk_block ''view'' ''collection_view'' [] [])
          \<lparr>b_view_ids := [''v1''], f_collection_id := Some ''coll''\<rparr>)]
   = [(''kid'', [''out'', ''Root'']), (''kid'', [''out'']), (''other'', [''out''])]"
  by code_simp

theorem export_visits_once_witness:
  "export_tree 3 ex_env ex_world (\<lambda>u. Inl RequestException) [''out'']
      ''11111111111111111111111111111111''
   = Some (Inr (Returned,
        \<lparr> seen_pages = {''other'', ''kid'', ''11111111-1111-1111-1111-111111111111''},
          fetched = [''11111111-1111-1111-1111-111111111111'', ''kid'', ''other''],
          written = [(''11111111-1111-1111-1111-111111111111'', [''out'', ''Root'']),
                     (''kid'', [''out'', ''Root'', ''Kid'']),
                     (''other'', [''out'', ''Other''])] \<rparr>))
   \<and> export_targets ex_world ''11111111-1111-1111-1111-111111111111'' [''out'', ''Root''] [''out'']
     [(''11111111-1111-1111-1111-111111111111'',
         page_block ''11111111-1111-1111-1111-111111111111'' ''Root''),
      (''kid'', mk_block ''kid'' ''child_page'' [(''Kid'', [])] []),
      (''view'', (mk_block ''view'' ''collection_view'' [] [])
          \<lparr>b_view_ids := [''v1''], f_collection_id := Some ''coll''\<rparr>)]
     = [(''kid'', [''out'', ''Root'']), (''kid'', [''out'']), (''other'', [''out''])]
   \<and> distinct [''11111111-1111-1111-1111-111111111111'', ''kid'', ''other'']
   \<and> distinct (map fst [(''11111111-1111-1111-1111-111111111111'', [''out'', ''Root'']),
                         (''kid'', [''out'', ''Root'', ''Kid'']),
                         (''other'', [''out'', ''Other''])])"
proof -
  from export_visits_once [OF ex_world_run]
  have once: "distinct [''11111111-1111-1111-1111-111111111111'', ''kid'', ''other'']
      \<and> distinct (map fst [(''11111111-1111-1111-1111-111111111111'', [''out'', ''Root'']),
                         (''kid'', [''out'', ''Root'', ''Kid'']),
                         (''other'', [''out'', ''Other''])])"
    by (simp only: export_state.simps simp_thms)
  show ?thesis
    by (rule conjI [OF ex_world_run conjI [OF ex_world_targets once]])
qed

end
